theory Spec2Isabelle
  imports Main "HOL-Library.Word"
begin

section \<open>Data model of the socket object system\<close>

text \<open>
  The development embeds \<^verbatim>\<open>socket.c\<close> and \<^verbatim>\<open>tcp.c\<close> of network_lib.
  A C name with a leading underscore is written with the prefix \<open>i_\<close>
  (\<^verbatim>\<open>_socket_close\<close> is \<open>i_socket_close\<close>); every other name is the source's.

  Conventions of the embedding:
  \<^item> a \<^verbatim>\<open>socket_t*\<close> is the registry key of the record (the record is allocated once per
    identifier, so the key identifies the allocation); a \<^verbatim>\<open>socket_base_t*\<close> is the index of
    the slot in the slot table; a \<^verbatim>\<open>socket_stream_t*\<close> is a key of the stream heap;
  \<^item> the flag word of a slot is the set of flags whose bit is set: \<^verbatim>\<open>f & F\<close> is
    intersection with \<open>{F}\<close>, \<^verbatim>\<open>f | F\<close> is insertion, \<^verbatim>\<open>f & ~F\<close> is removal;
  \<^item> the kernel is a table of answers indexed by a call counter (\<open>tick\<close>): every system
    call whose result the code reads takes the answer at the current tick and advances it;
    system calls whose result the code ignores (\<^verbatim>\<open>fcntl\<close>, \<^verbatim>\<open>shutdown\<close>, \<^verbatim>\<open>close\<close>,
    the \<^verbatim>\<open>SO_REUSEADDR\<close> family) leave no trace in the model;
  \<^item> the POSIX branches of the platform conditionals are the ones embedded;
  \<^item> the bytes held by the two buffers are not part of the model, their cursors are;
  \<^item> the reference count of a record is an unbounded integer: the 32-bit atomic of the source
    would need two thousand million outstanding references to wrap, and no statement below
    depends on that;
  \<^item> calls are sequential: no two threads interleave inside one operation.
\<close>

datatype socket_state_t =
    SOCKETSTATE_NOTCONNECTED
  | SOCKETSTATE_CONNECTING
  | SOCKETSTATE_CONNECTED
  | SOCKETSTATE_LISTENING
  | SOCKETSTATE_DISCONNECTED

datatype socket_flag =
    SOCKETFLAG_BLOCKING
  | SOCKETFLAG_TCPDELAY
  | SOCKETFLAG_POLLED
  | SOCKETFLAG_CONNECTION_PENDING
  | SOCKETFLAG_ERROR_PENDING
  | SOCKETFLAG_HANGUP_PENDING
  | SOCKETFLAG_REFLUSH
  | SOCKETFLAG_REUSE_ADDR
  | SOCKETFLAG_REUSE_PORT

datatype network_address_family_t =
    NETWORK_ADDRESSFAMILY_IPV4
  | NETWORK_ADDRESSFAMILY_IPV6
  | NETWORK_ADDRESSFAMILY_OTHER

type_synonym object_t = nat

record network_address_t =
  addr_family :: network_address_family_t
  saddr :: nat

record socket_base_t =
  object :: object_t
  fd :: int
  flags :: "socket_flag set"
  state :: socket_state_t
  last_event :: nat

record socket_t =
  sid :: object_t
  ref :: int
  base :: int
  family :: network_address_family_t
  address_local :: "network_address_t option"
  address_remote :: "network_address_t option"
  offset_read_in :: nat
  offset_write_in :: nat
  offset_write_out :: nat
  bytes_read :: nat
  bytes_written :: nat
  stream :: "nat option"

record socket_stream_t =
  socket :: object_t

text \<open>
  The process state: the handle registry (\<^verbatim>\<open>_socket_map\<close>), the slot table
  (\<^verbatim>\<open>_socket_base\<close>, \<^verbatim>\<open>_socket_base_next\<close>, \<^verbatim>\<open>_socket_base_size\<close>), the heap of stream
  adapters, the posted hangup events and the kernel call counter.
\<close>

record world =
  socket_map_size :: nat
  socket_map_used :: nat
  socket_map_fresh :: object_t
  socket_map :: "object_t \<rightharpoonup> socket_t"
  socket_base :: "socket_base_t list"
  socket_base_next :: int
  socket_base_size :: int
  streams :: "nat \<rightharpoonup> socket_stream_t"
  streams_fresh :: nat
  hangup_events :: "object_t list"
  tick :: nat

text \<open>
  What the model cannot read from the repository's files: two build constants and the
  kernel's answers. \<open>read_fn_positive\<close> is the truth value of
  \<^verbatim>\<open>sock->read_fn( sock, n ) > 0\<close> in \<^verbatim>\<open>_socket_read\<close>: the TCP hook of \<^verbatim>\<open>tcp.c\<close>
  is declared \<^verbatim>\<open>void\<close>, so the value compared there comes from outside the files.
\<close>

record env =
  BUILD_SIZE_SOCKET_READBUFFER :: nat
  BUILD_ENABLE_DEBUG_LOG :: bool
  sys_socket :: "nat \<Rightarrow> int"
  sys_bind :: "nat \<Rightarrow> int"
  sys_accept :: "nat \<Rightarrow> int \<times> nat"
  sys_connect :: "nat \<Rightarrow> int"
  sys_select :: "nat \<Rightarrow> int \<times> bool \<times> bool"
  sys_errno :: "nat \<Rightarrow> int"
  sys_so_error :: "nat \<Rightarrow> int"
  sys_fionread :: "nat \<Rightarrow> int \<times> int"
  sys_recv :: "nat \<Rightarrow> nat \<Rightarrow> int"
  sys_setsockopt :: "nat \<Rightarrow> int"
  sys_getsockname :: "nat \<Rightarrow> nat"
  read_fn_positive :: "nat \<Rightarrow> bool"

text \<open>
  Ways in which a call does not return normally: the slot search never ends, a null record
  reaches \<^verbatim>\<open>FOUNDATION_ASSERT( sock )\<close> and the dereference after it, an index leaves the
  slot table, or the fuel given to the read loop of the model is used up.
\<close>

datatype fault = NoReturn | NullRecord | OutOfTable | OutOfFuel

definition SOCKET_INVALID :: int where
  "SOCKET_INVALID = - 1"

definition EAGAIN :: int where "EAGAIN = 11"
definition EPIPE :: int where "EPIPE = 32"
definition ECONNRESET :: int where "ECONNRESET = 104"
definition ETIMEDOUT :: int where "ETIMEDOUT = 110"
definition EINPROGRESS :: int where "EINPROGRESS = 115"

definition wrap32 :: "int \<Rightarrow> int" where
  "wrap32 x = (x + 2 ^ 31) mod 2 ^ 32 - 2 ^ 31"

definition u32 :: "int \<Rightarrow> nat" where
  "u32 x = nat (x mod 2 ^ 32)"

definition usub :: "nat \<Rightarrow> nat \<Rightarrow> nat" where
  "usub a b = u32 (int a - int b)"

definition slot :: "world \<Rightarrow> nat \<Rightarrow> socket_base_t" where
  "slot w b = socket_base w ! b"

definition slot_update :: "nat \<Rightarrow> (socket_base_t \<Rightarrow> socket_base_t) \<Rightarrow> world \<Rightarrow> world" where
  "slot_update b f w = w\<lparr>socket_base := (socket_base w)[b := f (socket_base w ! b)]\<rparr>"

definition sock_update :: "object_t \<Rightarrow> (socket_t \<Rightarrow> socket_t) \<Rightarrow> world \<Rightarrow> world" where
  "sock_update p f w =
     (case socket_map w p of
        None \<Rightarrow> w
      | Some s \<Rightarrow> w\<lparr>socket_map := (socket_map w)(p \<mapsto> f s)\<rparr>)"

definition next_tick :: "world \<Rightarrow> world" where
  "next_tick w = w\<lparr>tick := tick w + 1\<rparr>"

definition bind_fault :: "fault + 'a \<Rightarrow> ('a \<Rightarrow> fault + 'b) \<Rightarrow> fault + 'b" where
  "bind_fault m f = (case m of Inl e \<Rightarrow> Inl e | Inr x \<Rightarrow> f x)"

section \<open>Registry: lookup, close, destroy\<close>

text \<open>\<^verbatim>\<open>_socket_lookup\<close>: the record of the identifier, its reference count incremented.\<close>

definition i_socket_lookup :: "world \<Rightarrow> object_t \<Rightarrow> object_t option \<times> world" where
  "i_socket_lookup w ident =
     (case socket_map w ident of
        None \<Rightarrow> (None, w)
      | Some s \<Rightarrow> (Some ident, sock_update ident (\<lambda>s. s\<lparr>ref := ref s + 1\<rparr>) w))"

text \<open>
  \<^verbatim>\<open>_socket_close\<close>: releases the slot, then drops both addresses. The descriptor is put in
  non-blocking mode, shut down and closed; the kernel's answers to that are not read.
\<close>

definition i_socket_close :: "world \<Rightarrow> object_t \<Rightarrow> world" where
  "i_socket_close w p =
     (case socket_map w p of
        None \<Rightarrow> w
      | Some s \<Rightarrow>
          (let w1 = (if base s \<ge> 0
                     then sock_update p (\<lambda>s. s\<lparr>base := - 1\<rparr>)
                            (slot_update (nat (base s))
                               (\<lambda>sb. sb\<lparr>object := 0, fd := SOCKET_INVALID,
                                         state := SOCKETSTATE_NOTCONNECTED, flags := {}\<rparr>) w)
                     else w)
           in sock_update p (\<lambda>s. s\<lparr>address_local := None, address_remote := None\<rparr>) w1))"

text \<open>
  \<^verbatim>\<open>_socket_deallocate\<close>: the identifier leaves the registry, the record is closed, its
  stream (if one is still attached) is deallocated and the record's memory is freed. The
  record is a value held by the registry map here, so the entry is removed last; the stream
  finalizer that \<^verbatim>\<open>stream_deallocate\<close> runs finds the identifier already freed and only
  clears the adapter before its memory is returned.
\<close>

definition i_socket_deallocate :: "world \<Rightarrow> object_t \<Rightarrow> world" where
  "i_socket_deallocate w p =
     (let w1 = i_socket_close w p;
          w2 = (case socket_map w1 p of
                  None \<Rightarrow> w1
                | Some s \<Rightarrow>
                    (case stream s of
                       None \<Rightarrow> w1
                     | Some st \<Rightarrow> w1\<lparr>streams := (streams w1)(st := None)\<rparr>))
      in w2\<lparr>socket_map := (socket_map w2)(p := None),
             socket_map_used := socket_map_used w2 - 1\<rparr>)"

text \<open>\<^verbatim>\<open>socket_destroy\<close>: decrements the reference count and deallocates on zero.\<close>

definition socket_destroy :: "world \<Rightarrow> object_t \<Rightarrow> world" where
  "socket_destroy w ident =
     (case socket_map w ident of
        None \<Rightarrow> w
      | Some s \<Rightarrow>
          (let w1 = sock_update ident (\<lambda>s. s\<lparr>ref := ref s - 1\<rparr>) w
           in if ref s - 1 = 0 then i_socket_deallocate w1 ident else w1))"

text \<open>
  Modelled from the spec: \<^verbatim>\<open>socket_free\<close>, which \<^verbatim>\<open>tcp.c\<close> calls on every exit and whose
  definition is not among the files. The spec's release: decrement the count, destroy the
  record on zero.
\<close>

definition socket_free :: "world \<Rightarrow> object_t \<Rightarrow> world" where
  "socket_free w ident = socket_destroy w ident"

definition socket_close :: "world \<Rightarrow> object_t \<Rightarrow> world" where
  "socket_close w ident =
     (case i_socket_lookup w ident of
        (None, w1) \<Rightarrow> w1
      | (Some p, w1) \<Rightarrow> socket_destroy (i_socket_close w1 p) ident)"

section \<open>Module initialization\<close>

text \<open>
  \<^verbatim>\<open>_socket_initialize\<close>: \<^verbatim>\<open>max_sockets\<close> is an \<^verbatim>\<open>unsigned int\<close>, so the capacity handed to
  \<^verbatim>\<open>objectmap_allocate\<close> is a 32-bit sum. The slot table is zero-initialized memory: every
  field of every slot is zero, which for the state is the first enumerator.
\<close>

definition zero_slot :: socket_base_t where
  "zero_slot = \<lparr>object = 0, fd = 0, flags = {}, state = SOCKETSTATE_NOTCONNECTED, last_event = 0\<rparr>"

definition i_socket_initialize :: "32 word \<Rightarrow> world" where
  "i_socket_initialize max_sockets =
     \<lparr>socket_map_size = unat (max_sockets + (if max_sockets > 256 then 256 else 8)),
      socket_map_used = 0,
      socket_map_fresh = 1,
      socket_map = Map.empty,
      socket_base = replicate (unat max_sockets) zero_slot,
      socket_base_next = 0,
      socket_base_size = sint max_sockets,
      streams = Map.empty,
      streams_fresh = 1,
      hangup_events = [],
      tick = 0\<rparr>"

section \<open>Record and slot allocation\<close>

text \<open>
  Modelled from the spec: \<^verbatim>\<open>objectmap_reserve\<close> of the foundation library, the registry's
  \<open>reserve()\<close>: a previously unused identifier, or 0 when the registry is full.
\<close>

definition objectmap_reserve :: "world \<Rightarrow> object_t \<times> world" where
  "objectmap_reserve w =
     (if socket_map_used w \<ge> socket_map_size w then (0, w)
      else (socket_map_fresh w,
            w\<lparr>socket_map_fresh := socket_map_fresh w + 1,
              socket_map_used := socket_map_used w + 1\<rparr>))"

text \<open>
  \<^verbatim>\<open>_socket_allocate\<close>: zero-initialized memory with the identifier, no slot and one
  reference. The four hooks that \<^verbatim>\<open>_tcp_socket_allocate\<close> installs are not fields of the
  model: every record of the files is a TCP record, so a call through a hook is a call of
  the TCP function, and \<^verbatim>\<open>stream_initialize_fn\<close> stays null.
\<close>

definition i_socket_allocate :: "world \<Rightarrow> object_t option \<times> world" where
  "i_socket_allocate w =
     (case objectmap_reserve w of
        (obj, w1) \<Rightarrow>
          if obj = 0 then (None, w1)
          else (Some obj,
                w1\<lparr>socket_map := (socket_map w1)(obj \<mapsto>
                     \<lparr>sid = obj, ref = 1, base = - 1, family = NETWORK_ADDRESSFAMILY_IPV4,
                      address_local = None, address_remote = None,
                      offset_read_in = 0, offset_write_in = 0, offset_write_out = 0,
                      bytes_read = 0, bytes_written = 0, stream = None\<rparr>)\<rparr>))"

definition i_tcp_socket_allocate :: "world \<Rightarrow> object_t option \<times> world" where
  "i_tcp_socket_allocate w = i_socket_allocate w"

definition tcp_socket_create :: "world \<Rightarrow> object_t \<times> world" where
  "tcp_socket_create w =
     (case i_tcp_socket_allocate w of
        (None, w1) \<Rightarrow> (0, w1)
      | (Some p, w1) \<Rightarrow> ((case socket_map w1 p of None \<Rightarrow> 0 | Some s \<Rightarrow> sid s), w1))"

text \<open>
  The \<^verbatim>\<open>do ... while( true )\<close> of \<^verbatim>\<open>_socket_allocate_base\<close>. The cursor is a 32-bit atomic
  that is only ever incremented; a cursor at or past the table size is skipped, so once the
  cursor has passed the table the search goes on until the counter wraps to a negative
  index, which leaves the table. The compare-and-swap of a free slot succeeds: the model
  has one thread.
\<close>

partial_function (option) socket_base_search ::
  "world \<Rightarrow> object_t \<Rightarrow> object_t \<Rightarrow> int \<Rightarrow> (fault + int \<times> world) option" where
  [code]: "socket_base_search w p ident maxbase =
     (let b = socket_base_next w;
          w1 = w\<lparr>socket_base_next := wrap32 (b + 1)\<rparr>
      in if b \<ge> maxbase then socket_base_search w1 p ident maxbase
         else if b < 0 \<or> length (socket_base w1) \<le> nat b then Some (Inl OutOfTable)
         else if object (slot w1 (nat b)) \<noteq> 0 then socket_base_search w1 p ident maxbase
         else Some (Inr (b,
                slot_update (nat b)
                  (\<lambda>sb. sb\<lparr>object := ident, fd := SOCKET_INVALID, flags := {},
                            state := SOCKETSTATE_NOTCONNECTED, last_event := 0\<rparr>)
                  (sock_update p (\<lambda>s. s\<lparr>base := b\<rparr>) w1))))"

definition i_socket_allocate_base :: "world \<Rightarrow> object_t \<Rightarrow> fault + int \<times> world" where
  "i_socket_allocate_base w p =
     (case socket_map w p of
        None \<Rightarrow> Inl NullRecord
      | Some s \<Rightarrow>
          if base s \<ge> 0 then Inr (base s, w)
          else (case socket_base_search w p (sid s) (socket_base_size w) of
                  None \<Rightarrow> Inl NoReturn
                | Some r \<Rightarrow> r))"

text \<open>
  What a successful slot search leaves: slot \<open>b\<close> of the table was free and now carries
  the identifier with an invalid descriptor, no flags and state NOT_CONNECTED; the record
  points at it; the cursor has moved; nothing else has changed.
\<close>

definition claimed :: "world \<Rightarrow> object_t \<Rightarrow> object_t \<Rightarrow> int \<Rightarrow> world \<Rightarrow> bool" where
  "claimed w p ident b w' \<longleftrightarrow>
     0 \<le> b \<and> nat b < length (socket_base w) \<and> object (slot w (nat b)) = 0
     \<and> socket_map w' = socket_map (sock_update p (\<lambda>s. s\<lparr>base := b\<rparr>) w)
     \<and> socket_base w' =
         (socket_base w)[nat b := (slot w (nat b))\<lparr>object := ident, fd := SOCKET_INVALID,
                                    flags := {}, state := SOCKETSTATE_NOTCONNECTED,
                                    last_event := 0\<rparr>]
     \<and> streams w' = streams w \<and> tick w' = tick w \<and> hangup_events w' = hangup_events w
     \<and> socket_base_size w' = socket_base_size w"

section \<open>Flag setters and descriptor creation\<close>

text \<open>
  The three setters claim a slot if the record has none, then update the flag. The slot
  they write is \<^verbatim>\<open>_socket_base + sock->base\<close>, which is the index the allocation returned.
\<close>

definition set_flag :: "socket_flag \<Rightarrow> bool \<Rightarrow> socket_base_t \<Rightarrow> socket_base_t" where
  "set_flag F on sb = sb\<lparr>flags := (if on then insert F (flags sb) else flags sb - {F})\<rparr>"

definition i_socket_set_reuse_address :: "world \<Rightarrow> object_t \<Rightarrow> bool \<Rightarrow> fault + world" where
  "i_socket_set_reuse_address w p reuse =
     bind_fault (i_socket_allocate_base w p) (\<lambda>(b, w1).
       if b < 0 then Inr w1
       else Inr (slot_update (nat b) (set_flag SOCKETFLAG_REUSE_ADDR reuse) w1))"

definition i_socket_set_reuse_port :: "world \<Rightarrow> object_t \<Rightarrow> bool \<Rightarrow> fault + world" where
  "i_socket_set_reuse_port w p reuse =
     bind_fault (i_socket_allocate_base w p) (\<lambda>(b, w1).
       if b < 0 then Inr w1
       else Inr (slot_update (nat b) (set_flag SOCKETFLAG_REUSE_PORT reuse) w1))"

definition i_socket_set_blocking :: "world \<Rightarrow> object_t \<Rightarrow> bool \<Rightarrow> fault + world" where
  "i_socket_set_blocking w p block =
     bind_fault (i_socket_allocate_base w p) (\<lambda>(b, w1).
       if b < 0 then Inr w1
       else Inr (slot_update (nat b) (set_flag SOCKETFLAG_BLOCKING block) w1))"

definition i_tcp_socket_set_delay :: "world \<Rightarrow> object_t \<Rightarrow> bool \<Rightarrow> fault + world" where
  "i_tcp_socket_set_delay w p delay =
     (case socket_map w p of
        None \<Rightarrow> Inl NullRecord
      | Some s \<Rightarrow>
          if base s < 0 then Inr w
          else Inr (slot_update (nat (base s)) (set_flag SOCKETFLAG_TCPDELAY delay) w))"

definition i_tcp_socket_open ::
  "env \<Rightarrow> world \<Rightarrow> object_t \<Rightarrow> network_address_family_t \<Rightarrow> fault + world" where
  "i_tcp_socket_open E w p fam =
     (case socket_map w p of
        None \<Rightarrow> Inl NullRecord
      | Some s \<Rightarrow>
          if base s < 0 then Inr w
          else
            (let b = nat (base s);
                 w1 = next_tick (slot_update b (\<lambda>sb. sb\<lparr>fd := sys_socket E (tick w)\<rparr>) w)
             in if fd (slot w1 b) < 0
                then Inr (slot_update b (\<lambda>sb. sb\<lparr>fd := SOCKET_INVALID\<rparr>) w1)
                else bind_fault
                       (i_socket_set_blocking w1 p (SOCKETFLAG_BLOCKING \<in> flags (slot w1 b)))
                       (\<lambda>w2. i_tcp_socket_set_delay w2 p
                                (SOCKETFLAG_TCPDELAY \<in> flags (slot w2 b)))))"

definition i_socket_create_fd ::
  "env \<Rightarrow> world \<Rightarrow> object_t \<Rightarrow> network_address_family_t \<Rightarrow> fault + int \<times> world" where
  "i_socket_create_fd E w p fam =
     bind_fault (i_socket_allocate_base w p) (\<lambda>(b0, w1).
       if b0 < 0 then Inr (SOCKET_INVALID, w1)
       else
         (case socket_map w1 p of
            None \<Rightarrow> Inl NullRecord
          | Some s \<Rightarrow>
              (let b = nat (base s) in
               if fd (slot w1 b) \<noteq> SOCKET_INVALID \<and> family s \<noteq> fam
               then Inr (SOCKET_INVALID, w1)
               else if fd (slot w1 b) = SOCKET_INVALID
               then bind_fault (i_tcp_socket_open E w1 p fam) (\<lambda>w2.
                      if fd (slot w2 b) \<noteq> SOCKET_INVALID
                      then
                        (let w3 = sock_update p (\<lambda>s. s\<lparr>family := fam\<rparr>) w2 in
                         bind_fault
                           (i_socket_set_blocking w3 p
                              (SOCKETFLAG_BLOCKING \<in> flags (slot w3 b))) (\<lambda>w4.
                         bind_fault
                           (i_socket_set_reuse_address w4 p
                              (SOCKETFLAG_REUSE_ADDR \<in> flags (slot w4 b))) (\<lambda>w5.
                         bind_fault
                           (i_socket_set_reuse_port w5 p
                              (SOCKETFLAG_REUSE_PORT \<in> flags (slot w5 b))) (\<lambda>w6.
                         Inr (fd (slot w6 b), w6)))))
                      else Inr (fd (slot w2 b), w2))
               else Inr (fd (slot w1 b), w1))))"

text \<open>
  \<^verbatim>\<open>_socket_store_address_local\<close>: the address the kernel reports for the descriptor
  (\<^verbatim>\<open>getsockname\<close> fills it), for the two supported families.
\<close>

definition i_socket_store_address_local ::
  "env \<Rightarrow> world \<Rightarrow> object_t \<Rightarrow> network_address_family_t \<Rightarrow> fault + world" where
  "i_socket_store_address_local E w p fam =
     (case socket_map w p of
        None \<Rightarrow> Inl NullRecord
      | Some s \<Rightarrow>
          if base s < 0 then Inr w
          else if fam = NETWORK_ADDRESSFAMILY_IPV4 \<or> fam = NETWORK_ADDRESSFAMILY_IPV6
          then Inr (next_tick (sock_update p
                 (\<lambda>s. s\<lparr>address_local :=
                          Some \<lparr>addr_family = fam, saddr = sys_getsockname E (tick w)\<rparr>\<rparr>) w))
          else Inr w)"

section \<open>Readiness probes and the state poller\<close>

text \<open>
  \<^verbatim>\<open>_socket_available_fd\<close>: -1 if nothing is available and the probe failed, otherwise the
  byte count the kernel reports. The answer of \<^verbatim>\<open>ioctl( fd, FIONREAD, &available )\<close> is its
  return value and the count it stored.
\<close>

definition i_socket_available_fd :: "env \<Rightarrow> world \<Rightarrow> int \<Rightarrow> int \<times> world" where
  "i_socket_available_fd E w fdv =
     (if fdv = SOCKET_INVALID then (- 1, w)
      else (case sys_fionread E (tick w) of
              (r, available) \<Rightarrow>
                ((if available = 0 \<and> r < 0 then - 1 else available), next_tick w)))"

text \<open>
  \<^verbatim>\<open>_socket_buffered_in\<close> asserts that the record is not null and then reads it. The
  arithmetic is that of \<^verbatim>\<open>unsigned int\<close>.
\<close>

definition i_socket_buffered_in :: "env \<Rightarrow> socket_t option \<Rightarrow> fault + nat" where
  "i_socket_buffered_in E sock =
     (case sock of
        None \<Rightarrow> Inl NullRecord
      | Some s \<Rightarrow>
          if offset_write_in s \<ge> offset_read_in s
          then Inr (usub (offset_write_in s) (offset_read_in s))
          else Inr (u32 (int (usub (BUILD_SIZE_SOCKET_READBUFFER E) (offset_read_in s))
                         + int (offset_write_in s))))"

definition i_socket_available_nonblock_read ::
  "env \<Rightarrow> world \<Rightarrow> object_t \<Rightarrow> fault + nat \<times> world" where
  "i_socket_available_nonblock_read E w p =
     (case socket_map w p of
        None \<Rightarrow> Inl NullRecord
      | Some s \<Rightarrow>
          (case (if base s \<ge> 0 then i_socket_available_fd E w (fd (slot w (nat (base s))))
                 else (0, w)) of
             (available, w1) \<Rightarrow>
               bind_fault (i_socket_buffered_in E (Some s)) (\<lambda>n.
                 Inr (u32 (int n + (if available > 0 then available else 0)), w1))))"

text \<open>
  The tail of \<^verbatim>\<open>_socket_poll_state\<close>: the reference taken by a lookup inside the poller is
  released, and the state of the slot is read again for the result.
\<close>

definition poll_finish :: "world \<Rightarrow> nat \<Rightarrow> object_t option \<Rightarrow> socket_state_t \<times> world" where
  "poll_finish w b sock =
     (let w1 = (case sock of
                  None \<Rightarrow> w
                | Some p \<Rightarrow>
                    (case socket_map w p of
                       None \<Rightarrow> w
                     | Some s \<Rightarrow> socket_destroy w (sid s)))
      in (state (slot w1 b), w1))"

text \<open>
  \<^verbatim>\<open>case SOCKETSTATE_DISCONNECTED\<close>, reached only by falling through from the case above
  it: the record is looked up if it has not been, and handed to \<^verbatim>\<open>_socket_buffered_in\<close>
  before it is tested.
\<close>

definition poll_disconnected ::
  "env \<Rightarrow> world \<Rightarrow> nat \<Rightarrow> object_t option \<Rightarrow> fault + socket_state_t \<times> world" where
  "poll_disconnected E w b sock =
     (case (case sock of
              None \<Rightarrow> i_socket_lookup w (object (slot w b))
            | Some p \<Rightarrow> (Some p, w)) of
        (sock1, w1) \<Rightarrow>
          bind_fault
            (i_socket_buffered_in E (case sock1 of None \<Rightarrow> None | Some p \<Rightarrow> socket_map w1 p))
            (\<lambda>n. Inr (poll_finish
                        (if n = 0
                         then (case sock1 of None \<Rightarrow> w1 | Some p \<Rightarrow> i_socket_close w1 p)
                         else w1) b sock1)))"

definition poll_debug_lookup :: "env \<Rightarrow> world \<Rightarrow> nat \<Rightarrow> object_t option \<times> world" where
  "poll_debug_lookup E w b =
     (if BUILD_ENABLE_DEBUG_LOG E then i_socket_lookup w (object (slot w b)) else (None, w))"

definition i_socket_poll_state ::
  "env \<Rightarrow> world \<Rightarrow> nat \<Rightarrow> fault + socket_state_t \<times> world" where
  "i_socket_poll_state E w b =
     (if state (slot w b) = SOCKETSTATE_NOTCONNECTED
         \<or> state (slot w b) = SOCKETSTATE_DISCONNECTED
      then Inr (state (slot w b), w)
      else
        (case state (slot w b) of
           SOCKETSTATE_CONNECTING \<Rightarrow>
             (case sys_select E (tick w) of
                (ret, fdwrite, fderr) \<Rightarrow>
                  (let w1 = next_tick w in
                   if fderr
                   then (case i_socket_lookup w1 (object (slot w1 b)) of
                           (None, w2) \<Rightarrow> Inr (poll_finish w2 b None)
                         | (Some p, w2) \<Rightarrow> Inr (poll_finish (i_socket_close w2 p) b (Some p)))
                   else if fdwrite
                   then (case poll_debug_lookup E w1 b of
                           (sock, w2) \<Rightarrow>
                             Inr (poll_finish
                                    (slot_update b
                                       (\<lambda>sb. sb\<lparr>state := SOCKETSTATE_CONNECTED\<rparr>) w2) b sock))
                   else Inr (poll_finish w1 b None)))
         | SOCKETSTATE_CONNECTED \<Rightarrow>
             (case i_socket_available_fd E w (fd (slot w b)) of
                (available, w1) \<Rightarrow>
                  if available < 0
                  then (case poll_debug_lookup E w1 b of
                          (sock, w2) \<Rightarrow>
                            poll_disconnected E
                              (slot_update b
                                 (\<lambda>sb. sb\<lparr>state := SOCKETSTATE_DISCONNECTED\<rparr>) w2) b sock)
                  else Inr (poll_finish w1 b None))
         | SOCKETSTATE_DISCONNECTED \<Rightarrow> poll_disconnected E w b None
         | _ \<Rightarrow> Inr (poll_finish w b None)))"

definition socket_state :: "env \<Rightarrow> world \<Rightarrow> object_t \<Rightarrow> fault + socket_state_t \<times> world" where
  "socket_state E w ident =
     (case i_socket_lookup w ident of
        (None, w1) \<Rightarrow> Inr (SOCKETSTATE_NOTCONNECTED, w1)
      | (Some p, w1) \<Rightarrow>
          (case socket_map w1 p of
             None \<Rightarrow> Inl NullRecord
           | Some s \<Rightarrow>
               if base s \<ge> 0
               then bind_fault (i_socket_poll_state E w1 (nat (base s))) (\<lambda>(st, w2).
                      Inr (st, socket_destroy w2 ident))
               else Inr (SOCKETSTATE_NOTCONNECTED, socket_destroy w1 ident)))"

section \<open>Bind, connect, accept, multicast\<close>

definition socket_bind ::
  "env \<Rightarrow> world \<Rightarrow> object_t \<Rightarrow> network_address_t \<Rightarrow> fault + bool \<times> world" where
  "socket_bind E w ident address =
     (case i_socket_lookup w ident of
        (None, w1) \<Rightarrow> Inr (False, w1)
      | (Some p, w1) \<Rightarrow>
          bind_fault (i_socket_create_fd E w1 p (addr_family address)) (\<lambda>(fdv, w2).
            if fdv = SOCKET_INVALID then Inr (False, socket_destroy w2 ident)
            else if sys_bind E (tick w2) = 0
            then bind_fault
                   (i_socket_store_address_local E (next_tick w2) p (addr_family address))
                   (\<lambda>w3. Inr (True, socket_destroy w3 ident))
            else Inr (False, socket_destroy (next_tick w2) ident)))"

text \<open>
  \<^verbatim>\<open>_tcp_socket_connect\<close>. The first component of \<open>connect_outcome\<close> is \<^verbatim>\<open>failed\<close>, the
  second \<^verbatim>\<open>err\<close>, as they stand after the \<^verbatim>\<open>connect\<close> call and the completion policy.
\<close>

definition connect_outcome ::
  "env \<Rightarrow> world \<Rightarrow> nat \<Rightarrow> nat \<Rightarrow> bool \<times> int \<times> world" where
  "connect_outcome E w b timeoutms =
     (let err = sys_connect E (tick w); w1 = next_tick w in
      if err = 0
      then (False, err, slot_update b (\<lambda>sb. sb\<lparr>state := SOCKETSTATE_CONNECTED\<rparr>) w1)
      else
        (let err1 = sys_errno E (tick w1); w2 = next_tick w1 in
         if err1 = EINPROGRESS
         then
           (if timeoutms = 0
            then (False, err1, slot_update b (\<lambda>sb. sb\<lparr>state := SOCKETSTATE_CONNECTING\<rparr>) w2)
            else
              (case sys_select E (tick w2) of
                 (ret, fdwrite, fderr) \<Rightarrow>
                   (let w3 = next_tick w2 in
                    if ret > 0
                    then (let serr = sys_so_error E (tick w3); w4 = next_tick w3 in
                          if serr = 0
                          then (False, err1,
                                slot_update b (\<lambda>sb. sb\<lparr>state := SOCKETSTATE_CONNECTED\<rparr>) w4)
                          else (True, serr, w4))
                    else if ret < 0 then (True, sys_errno E (tick w3), next_tick w3)
                    else (True, ETIMEDOUT, w3))))
         else (True, err1, w2)))"

definition i_tcp_socket_connect ::
  "env \<Rightarrow> world \<Rightarrow> object_t \<Rightarrow> network_address_t \<Rightarrow> nat \<Rightarrow> fault + int \<times> world" where
  "i_tcp_socket_connect E w p address timeoutms =
     (case socket_map w p of
        None \<Rightarrow> Inl NullRecord
      | Some s \<Rightarrow>
          if base s < 0 then Inr (0, w)
          else
            (let b = nat (base s);
                 blocking = (SOCKETFLAG_BLOCKING \<in> flags (slot w b)) in
             bind_fault
               (if timeoutms > 0 \<and> blocking then i_socket_set_blocking w p False else Inr w)
               (\<lambda>w1. case connect_outcome E w1 b timeoutms of
                  (failed, err, w2) \<Rightarrow>
                    bind_fault
                      (if timeoutms > 0 \<and> blocking then i_socket_set_blocking w2 p True
                       else Inr w2)
                      (\<lambda>w3. if failed then Inr (err, w3)
                         else
                           (let w4 = sock_update p
                                       (\<lambda>s. s\<lparr>address_remote := Some address\<rparr>) w3 in
                            bind_fault
                              (case socket_map w4 p of
                                 None \<Rightarrow> Inl NullRecord
                               | Some s4 \<Rightarrow>
                                   if address_local s4 = None
                                   then i_socket_store_address_local E w4 p (addr_family address)
                                   else Inr w4)
                              (\<lambda>w5. Inr (0, w5)))))))"

definition socket_connect ::
  "env \<Rightarrow> world \<Rightarrow> object_t \<Rightarrow> network_address_t \<Rightarrow> nat \<Rightarrow> fault + bool \<times> world" where
  "socket_connect E w ident address timeout =
     (case i_socket_lookup w ident of
        (None, w1) \<Rightarrow> Inr (False, w1)
      | (Some p, w1) \<Rightarrow>
          bind_fault (i_socket_create_fd E w1 p (addr_family address)) (\<lambda>(fdv, w2).
            if fdv = SOCKET_INVALID then Inr (False, socket_destroy w2 ident)
            else
              (case socket_map w2 p of
                 None \<Rightarrow> Inl NullRecord
               | Some s \<Rightarrow>
                   (let b = nat (base s) in
                    if state (slot w2 b) \<noteq> SOCKETSTATE_NOTCONNECTED
                    then Inr (False, socket_destroy w2 ident)
                    else
                      (let w3 = slot_update b
                                  (\<lambda>sb. sb\<lparr>flags := flags sb
                                              - {SOCKETFLAG_CONNECTION_PENDING,
                                                 SOCKETFLAG_ERROR_PENDING,
                                                 SOCKETFLAG_HANGUP_PENDING},
                                            last_event := 0\<rparr>) w2 in
                       bind_fault (i_tcp_socket_connect E w3 p address timeout) (\<lambda>(err, w4).
                         if err \<noteq> 0 then Inr (False, socket_destroy w4 ident)
                         else Inr (True,
                                socket_destroy
                                  (sock_update p
                                     (\<lambda>s. s\<lparr>address_remote := Some address\<rparr>) w4)
                                  ident)))))))"

text \<open>
  \<^verbatim>\<open>tcp_socket_accept\<close>. \<open>accept_outcome\<close> is the descriptor and the peer address after the
  first \<^verbatim>\<open>accept\<close> and, on \<^verbatim>\<open>EAGAIN\<close> with a timeout, the \<^verbatim>\<open>select\<close> and the second
  \<^verbatim>\<open>accept\<close>.
\<close>

definition accept_outcome :: "env \<Rightarrow> world \<Rightarrow> nat \<Rightarrow> int \<times> nat \<times> world" where
  "accept_outcome E w timeoutms =
     (case sys_accept E (tick w) of
        (fd1, peer1) \<Rightarrow>
          (let w1 = next_tick w in
           if fd1 < 0
           then
             (let err = sys_errno E (tick w1); w2 = next_tick w1 in
              if timeoutms > 0 \<and> err = EAGAIN
              then (case sys_select E (tick w2) of
                      (ret, fdread, fderr) \<Rightarrow>
                        (let w3 = next_tick w2 in
                         if ret > 0
                         then (case sys_accept E (tick w3) of
                                 (fd2, peer2) \<Rightarrow> (fd2, peer2, next_tick w3))
                         else (fd1, peer1, w3)))
              else (fd1, peer1, w2))
           else (fd1, peer1, w1)))"

text \<open>
  The part of \<^verbatim>\<open>tcp_socket_accept\<close> after a descriptor was accepted: a new TCP record, a
  slot for it, the descriptor installed as connected, the peer address (the clone of the
  listener's local address that \<^verbatim>\<open>accept\<close> filled) and the local address.
\<close>

definition accept_install ::
  "env \<Rightarrow> world \<Rightarrow> object_t \<Rightarrow> network_address_t \<Rightarrow> int \<Rightarrow> nat \<Rightarrow> fault + object_t \<times> world" where
  "accept_install E w ident al fdv peer =
     (case i_tcp_socket_allocate w of
        (None, w1) \<Rightarrow> Inr (0, socket_free w1 ident)
      | (Some a, w1) \<Rightarrow>
          bind_fault (i_socket_allocate_base w1 a) (\<lambda>(ab, w2).
            if ab < 0 then Inr (0, socket_free (socket_free w2 a) ident)
            else
              (let w3 = slot_update (nat ab)
                          (\<lambda>sb. sb\<lparr>fd := fdv, state := SOCKETSTATE_CONNECTED\<rparr>) w2;
                   w4 = sock_update a
                          (\<lambda>s. s\<lparr>address_remote := Some (al\<lparr>saddr := peer\<rparr>)\<rparr>) w3
               in bind_fault (i_socket_store_address_local E w4 a (addr_family al))
                    (\<lambda>w5. Inr (a, socket_free w5 ident)))))"

definition tcp_socket_accept ::
  "env \<Rightarrow> world \<Rightarrow> object_t \<Rightarrow> nat \<Rightarrow> fault + object_t \<times> world" where
  "tcp_socket_accept E w ident timeoutms =
     (case i_socket_lookup w ident of
        (None, w1) \<Rightarrow> Inr (0, w1)
      | (Some p, w1) \<Rightarrow>
          (case socket_map w1 p of
             None \<Rightarrow> Inl NullRecord
           | Some s \<Rightarrow>
               if base s < 0 then Inr (0, socket_free w1 ident)
               else if state (slot w1 (nat (base s))) \<noteq> SOCKETSTATE_LISTENING
                       \<or> fd (slot w1 (nat (base s))) = SOCKET_INVALID
               then Inr (0, socket_free w1 ident)
               else
                 (case address_local s of
                    None \<Rightarrow> Inr (0, socket_free w1 ident)
                  | Some al \<Rightarrow>
                      (let b = nat (base s);
                           blocking = (SOCKETFLAG_BLOCKING \<in> flags (slot w1 b)) in
                       bind_fault
                         (if timeoutms > 0 \<and> blocking then i_socket_set_blocking w1 p False
                          else Inr w1)
                         (\<lambda>w2. case accept_outcome E w2 timeoutms of
                            (fdv, peer, w3) \<Rightarrow>
                              bind_fault
                                (if timeoutms > 0 \<and> blocking
                                 then i_socket_set_blocking w3 p True else Inr w3)
                                (\<lambda>w4.
                                  (let w5 = slot_update b
                                              (\<lambda>sb. sb\<lparr>flags := flags sb
                                                         \<inter> {SOCKETFLAG_CONNECTION_PENDING}\<rparr>) w4
                                   in if fdv < 0 then Inr (0, socket_free w5 ident)
                                      else accept_install E w5 ident al fdv peer)))))))"

text \<open>
  \<^verbatim>\<open>socket_set_multicast_group\<close>. The two \<^verbatim>\<open>setsockopt\<close> calls for TTL and loopback are not
  read; the one that adds the membership is.
\<close>

definition socket_set_multicast_group ::
  "env \<Rightarrow> world \<Rightarrow> object_t \<Rightarrow> network_address_t \<Rightarrow> bool \<Rightarrow> fault + bool \<times> world" where
  "socket_set_multicast_group E w ident address allow_loopback =
     (case i_socket_lookup w ident of
        (None, w1) \<Rightarrow> Inr (False, w1)
      | (Some p, w1) \<Rightarrow>
          bind_fault (i_socket_allocate_base w1 p) (\<lambda>(b, w2).
            if b < 0 then Inr (False, w2)
            else if fd (slot w2 (nat b)) = SOCKET_INVALID then Inr (False, w2)
            else if sys_setsockopt E (tick w2) \<noteq> 0 then Inr (False, next_tick w2)
            else Inr (True, next_tick w2)))"

definition socket_blocking :: "world \<Rightarrow> object_t \<Rightarrow> bool \<times> world" where
  "socket_blocking w ident =
     (case i_socket_lookup w ident of
        (None, w1) \<Rightarrow> (False, w1)
      | (Some p, w1) \<Rightarrow>
          (case socket_map w1 p of
             None \<Rightarrow> (False, w1)
           | Some s \<Rightarrow>
               ((if base s \<ge> 0 then SOCKETFLAG_BLOCKING \<in> flags (slot w1 (nat (base s)))
                 else False),
                socket_destroy w1 ident)))"

definition socket_set_blocking :: "world \<Rightarrow> object_t \<Rightarrow> bool \<Rightarrow> fault + world" where
  "socket_set_blocking w ident block =
     (case i_socket_lookup w ident of
        (None, w1) \<Rightarrow> Inr w1
      | (Some p, w1) \<Rightarrow>
          bind_fault (i_socket_set_blocking w1 p block) (\<lambda>w2. Inr (socket_destroy w2 ident)))"

section \<open>Buffered read of the TCP transport\<close>

text \<open>
  The hangup notification that follows \<^verbatim>\<open>_socket_close\<close> in \<^verbatim>\<open>_tcp_socket_buffer_read\<close>:
  the flag is tested and set through the slot pointer taken before the close.
\<close>

definition post_hangup :: "nat \<Rightarrow> object_t \<Rightarrow> world \<Rightarrow> world" where
  "post_hangup b p w =
     (if SOCKETFLAG_HANGUP_PENDING \<notin> flags (slot w b)
      then (slot_update b (set_flag SOCKETFLAG_HANGUP_PENDING True) w)
             \<lparr>hangup_events := hangup_events w
                @ [case socket_map w p of None \<Rightarrow> p | Some s \<Rightarrow> sid s]\<rparr>
      else w)"

text \<open>
  \<^verbatim>\<open>_tcp_socket_buffer_read\<close>, in the order of the source. \<open>buffer_max_read\<close> is the
  free region of the ring that can be filled without the write cursor reaching the read
  cursor; \<open>buffer_try_read\<close> is the length handed to \<^verbatim>\<open>recv\<close>, \<^verbatim>\<open>available\<close> being an
  \<^verbatim>\<open>unsigned int\<close> that receives an \<^verbatim>\<open>int\<close>.
\<close>

definition buffer_max_read :: "nat \<Rightarrow> socket_t \<Rightarrow> nat" where
  "buffer_max_read N s =
     (if offset_write_in s \<ge> offset_read_in s
      then (if offset_read_in s = 0
            then usub (usub N (offset_write_in s)) 1
            else usub N (offset_write_in s))
      else usub (usub (offset_read_in s) (offset_write_in s)) 1)"

definition buffer_try_read :: "nat \<Rightarrow> nat \<Rightarrow> nat \<Rightarrow> nat" where
  "buffer_try_read wanted_size max_read available =
     (let try_read = (if wanted_size \<noteq> 0 \<and> max_read > wanted_size
                      then wanted_size else max_read)
      in if available > try_read
         then (if max_read < available then max_read else available)
         else try_read)"

text \<open>
  What follows the \<^verbatim>\<open>recv\<close> call, by the sign of its result \<open>ret\<close>: the peer closed, bytes
  arrived, or an error. The second component of the result is the argument of the
  recursive call when the condition of the last statement of the function holds; the
  condition includes \<^verbatim>\<open>ret > 0\<close>, so it is tested in that branch only.
\<close>

definition buffer_read_result ::
  "env \<Rightarrow> world \<Rightarrow> object_t \<Rightarrow> nat \<Rightarrow> nat \<Rightarrow> nat \<Rightarrow> nat \<Rightarrow> int
     \<Rightarrow> fault + world \<times> nat option" where
  "buffer_read_result E w p b wanted_size available try_read ret =
     (if ret = 0 then Inr (post_hangup b p (i_socket_close w p), None)
      else if ret > 0
      then
        (let N = BUILD_SIZE_SOCKET_READBUFFER E;
             w1 = sock_update p
                    (\<lambda>s. s\<lparr>offset_write_in :=
                             (if u32 (int (offset_write_in s) + ret) \<ge> N then 0
                              else u32 (int (offset_write_in s) + ret))\<rparr>) w
         in Inr (w1,
              (case socket_map w1 p of
                 None \<Rightarrow> None
               | Some s1 \<Rightarrow>
                   if state (slot w1 b) = SOCKETSTATE_CONNECTED
                      \<and> try_read < wanted_size
                      \<and> available > try_read
                      \<and> offset_write_in s1 = 0
                      \<and> offset_read_in s1 > 1
                   then Some (wanted_size - try_read)
                   else None)))
      else
        (let sockerr = sys_errno E (tick w);
             w1 = next_tick w;
             w2 = (if sockerr = ECONNRESET \<or> sockerr = EPIPE \<or> sockerr = ETIMEDOUT
                   then post_hangup b p (i_socket_close w1 p)
                   else w1)
         in bind_fault (i_socket_poll_state E w2 b) (\<lambda>(st, w3). Inr (w3, None))))"

definition buffer_read_step ::
  "env \<Rightarrow> world \<Rightarrow> object_t \<Rightarrow> nat \<Rightarrow> fault + world \<times> nat option" where
  "buffer_read_step E w p wanted_size =
     (case socket_map w p of
        None \<Rightarrow> Inl NullRecord
      | Some s \<Rightarrow>
          if base s < 0 then Inr (w, None)
          else if buffer_max_read (BUILD_SIZE_SOCKET_READBUFFER E) s = 0 then Inr (w, None)
          else
            (case i_socket_available_fd E w (fd (slot w (nat (base s)))) of
               (avail, w1) \<Rightarrow>
                 if u32 avail = 0 \<and> wanted_size = 0
                    \<and> SOCKETFLAG_BLOCKING \<in> flags (slot w1 (nat (base s)))
                 then Inr (w1, None)
                 else
                   (let try_read = buffer_try_read wanted_size
                                     (buffer_max_read (BUILD_SIZE_SOCKET_READBUFFER E) s)
                                     (u32 avail)
                    in buffer_read_result E (next_tick w1) p (nat (base s)) wanted_size
                         (u32 avail) try_read (sys_recv E (tick w1) try_read))))"

function i_tcp_socket_buffer_read :: "env \<Rightarrow> world \<Rightarrow> object_t \<Rightarrow> nat \<Rightarrow> fault + world" where
  "i_tcp_socket_buffer_read E w p wanted_size =
     (case buffer_read_step E w p wanted_size of
        Inl f \<Rightarrow> Inl f
      | Inr (w1, None) \<Rightarrow> Inr w1
      | Inr (w1, Some rest) \<Rightarrow> i_tcp_socket_buffer_read E w1 p rest)"
  by pat_completeness auto
termination
  apply (relation "measure (\<lambda>(E, w, p, wanted_size). wanted_size)")
   apply simp
  apply (auto simp add: buffer_read_step_def buffer_read_result_def buffer_try_read_def
              Let_def bind_fault_def
              split: option.splits if_splits prod.splits sum.splits)
  done

section \<open>Stream adapter\<close>

definition i_socket_stream_allocate :: "world \<Rightarrow> object_t \<Rightarrow> nat \<times> world" where
  "i_socket_stream_allocate w ident =
     (let st = streams_fresh w
      in (st, w\<lparr>streams := (streams w)(st \<mapsto> \<lparr>socket = ident\<rparr>),
                streams_fresh := st + 1\<rparr>))"

text \<open>
  \<^verbatim>\<open>socket_stream\<close>: the first call for a record allocates the adapter and keeps the
  reference that the lookup took; a later call returns the adapter and releases.
\<close>

definition socket_stream :: "world \<Rightarrow> object_t \<Rightarrow> nat option \<times> world" where
  "socket_stream w ident =
     (case i_socket_lookup w ident of
        (None, w1) \<Rightarrow> (None, w1)
      | (Some p, w1) \<Rightarrow>
          (case socket_map w1 p of
             None \<Rightarrow> (None, w1)
           | Some s \<Rightarrow>
               (case stream s of
                  None \<Rightarrow>
                    (case i_socket_stream_allocate w1 ident of
                       (st, w2) \<Rightarrow> (Some st, sock_update p (\<lambda>s. s\<lparr>stream := Some st\<rparr>) w2))
                | Some st \<Rightarrow> (Some st, socket_destroy w1 ident))))"

text \<open>
  \<^verbatim>\<open>_socket_stream_finalize\<close>. The assertion that the record's back-pointer is this
  adapter has no effect on the state; the back-pointer is cleared whenever the record is
  found.
\<close>

definition i_socket_stream_finalize :: "world \<Rightarrow> nat \<Rightarrow> fault + world" where
  "i_socket_stream_finalize w st =
     (case streams w st of
        None \<Rightarrow> Inl NullRecord
      | Some sockstream \<Rightarrow>
          (let ident = socket sockstream;
               w1 = (if ident \<noteq> 0
                     then (case i_socket_lookup w ident of
                             (None, w') \<Rightarrow> w'
                           | (Some p, w') \<Rightarrow>
                               socket_destroy (sock_update p (\<lambda>s. s\<lparr>stream := None\<rparr>) w') ident)
                     else w);
               w2 = w1\<lparr>streams := (streams w1)(st \<mapsto> sockstream\<lparr>socket := 0\<rparr>)\<rparr>
           in Inr (if ident \<noteq> 0 then socket_destroy w2 ident else w2)))"

text \<open>
  The inner \<^verbatim>\<open>do ... while( copy > 0 )\<close> of \<^verbatim>\<open>_socket_read\<close>, on the record. Each
  round takes \<open>read_copy\<close> bytes from the ring, up to its end or up to the write cursor
  and no more than are still wanted, and advances the read cursor, which returns to 0 at
  the end of the buffer. \<open>sz\<close> is \<^verbatim>\<open>size\<close>; \<^verbatim>\<open>want_read\<close> is the 64-bit difference cut to
  \<^verbatim>\<open>unsigned int\<close> (\<^verbatim>\<open>was_read\<close> starts at 0 and grows by at most \<^verbatim>\<open>want_read\<close>, so it
  never exceeds \<^verbatim>\<open>size\<close> and the difference is the one of the naturals).
\<close>

definition read_copy :: "nat \<Rightarrow> nat \<Rightarrow> socket_t \<Rightarrow> nat \<Rightarrow> nat" where
  "read_copy N sz s was_read =
     (let copy = (if offset_write_in s \<ge> offset_read_in s
                  then usub (offset_write_in s) (offset_read_in s)
                  else usub N (offset_read_in s));
          want_read = (sz - was_read) mod 2 ^ 32
      in if copy > want_read then want_read else copy)"

definition read_advance :: "nat \<Rightarrow> socket_t \<Rightarrow> nat \<Rightarrow> socket_t" where
  "read_advance N s copy =
     s\<lparr>offset_read_in :=
         (if u32 (int (offset_read_in s) + int copy) = N then 0
          else u32 (int (offset_read_in s) + int copy))\<rparr>"

function socket_read_drain ::
  "nat \<Rightarrow> nat \<Rightarrow> socket_t \<Rightarrow> nat \<Rightarrow> bool \<Rightarrow> socket_t \<times> nat \<times> bool" where
  "socket_read_drain N sz s was_read try_again =
     (if read_copy N sz s was_read > 0
      then socket_read_drain N sz (read_advance N s (read_copy N sz s was_read))
             (was_read + read_copy N sz s was_read) True
      else (s, was_read, try_again))"
  by pat_completeness auto
termination
proof (relation "measure (\<lambda>(N, sz, s, was_read, try_again). sz - was_read)")
  show "wf (measure (\<lambda>(N, sz, s, was_read, try_again). sz - was_read))"
    by simp
next
  fix N sz :: nat and s :: socket_t and was_read :: nat and try_again :: bool
  assume pos: "0 < read_copy N sz s was_read"
  have "read_copy N sz s was_read \<le> (sz - was_read) mod 2 ^ 32"
    by (simp add: read_copy_def Let_def)
  also have "\<dots> \<le> sz - was_read"
    by (rule mod_less_eq_dividend)
  finally have "sz - (was_read + read_copy N sz s was_read) < sz - was_read"
    using pos by linarith
  then show "((N, sz, read_advance N s (read_copy N sz s was_read),
               was_read + read_copy N sz s was_read, True),
              (N, sz, s, was_read, try_again))
             \<in> measure (\<lambda>(N, sz, s, was_read, try_again). sz - was_read)"
    by simp
qed

text \<open>
  The outer \<^verbatim>\<open>do ... while\<close> of \<^verbatim>\<open>_socket_read\<close>. The loop goes on for as long as the
  transport's buffered read reports progress, so the model gives it fuel: one unit per
  round. \<^verbatim>\<open>++loop_counter < 2\<close> is evaluated only when \<^verbatim>\<open>try_again\<close> is false.
\<close>

fun socket_read_loop ::
  "nat \<Rightarrow> env \<Rightarrow> world \<Rightarrow> object_t \<Rightarrow> bool \<Rightarrow> bool \<Rightarrow> nat \<Rightarrow> nat \<Rightarrow> nat
     \<Rightarrow> fault + nat \<times> world" where
  "socket_read_loop 0 E w p blocking polled sz was_read loop_counter = Inl OutOfFuel"
| "socket_read_loop (Suc fuel) E w p blocking polled sz was_read loop_counter =
     (case socket_map w p of
        None \<Rightarrow> Inl NullRecord
      | Some s \<Rightarrow>
          (case socket_read_drain (BUILD_SIZE_SOCKET_READBUFFER E) sz s was_read False of
             (s1, was_read1, try_again1) \<Rightarrow>
               bind_fault
                 (if was_read1 < sz \<and> ((\<not> blocking \<and> \<not> polled) \<or> blocking)
                  then bind_fault
                         (i_tcp_socket_buffer_read E (sock_update p (\<lambda>_. s1) w) p
                            ((sz - was_read1) mod 2 ^ 32))
                         (\<lambda>w2. Inr (try_again1 \<or> read_fn_positive E (tick w2), next_tick w2))
                  else Inr (try_again1, sock_update p (\<lambda>_. s1) w))
                 (\<lambda>(try_again2, w3).
                    if was_read1 < sz \<and> try_again2
                    then socket_read_loop fuel E w3 p blocking polled sz was_read1 loop_counter
                    else if was_read1 < sz \<and> loop_counter + 1 < 2
                    then socket_read_loop fuel E w3 p blocking polled sz was_read1
                           (loop_counter + 1)
                    else Inr (was_read1, w3))))"

text \<open>
  \<^verbatim>\<open>_socket_read\<close>. The two early returns before the slot is read leave without releasing
  the reference of the lookup.
\<close>

definition i_socket_read :: "env \<Rightarrow> nat \<Rightarrow> world \<Rightarrow> nat \<Rightarrow> nat \<Rightarrow> fault + nat \<times> world" where
  "i_socket_read E fuel w st sz =
     (case streams w st of
        None \<Rightarrow> Inl NullRecord
      | Some sockstream \<Rightarrow>
          (case i_socket_lookup w (socket sockstream) of
             (None, w1) \<Rightarrow> Inr (0, w1)
           | (Some p, w1) \<Rightarrow>
               (case socket_map w1 p of
                  None \<Rightarrow> Inl NullRecord
                | Some s \<Rightarrow>
                    if base s < 0 then Inr (0, w1)
                    else
                      (let b = nat (base s);
                           polled = (SOCKETFLAG_POLLED \<in> flags (slot w1 b));
                           blocking = (SOCKETFLAG_BLOCKING \<in> flags (slot w1 b));
                           w2 = slot_update b (\<lambda>sb. sb\<lparr>last_event := 0\<rparr>) w1
                       in if state (slot w2 b) \<noteq> SOCKETSTATE_CONNECTED
                             \<and> state (slot w2 b) \<noteq> SOCKETSTATE_DISCONNECTED
                          then Inr (0, socket_destroy w2 (socket sockstream))
                          else if sz = 0
                          then Inr (0, socket_destroy w2 (socket sockstream))
                          else
                            bind_fault (socket_read_loop fuel E w2 p blocking polled sz 0 0)
                              (\<lambda>(was_read, w3).
                                 bind_fault
                                   (if was_read < sz
                                    then bind_fault (i_socket_poll_state E w3 b)
                                           (\<lambda>(st, w4). Inr w4)
                                    else Inr w3)
                                   (\<lambda>w5. Inr (was_read,
                                          socket_destroy
                                            (sock_update p
                                               (\<lambda>s. s\<lparr>bytes_read :=
                                                  (bytes_read s + was_read) mod 2 ^ 64\<rparr>) w5)
                                            (socket sockstream))))))))"

text \<open>
  \<^verbatim>\<open>_socket_eos\<close>. The second operand of \<^verbatim>\<open>&&\<close> is evaluated only when the first holds.
  The early return for a record without a slot leaves without releasing the reference.
\<close>

definition i_socket_eos :: "env \<Rightarrow> world \<Rightarrow> nat \<Rightarrow> fault + bool \<times> world" where
  "i_socket_eos E w st =
     (case streams w st of
        None \<Rightarrow> Inl NullRecord
      | Some sockstream \<Rightarrow>
          (case i_socket_lookup w (socket sockstream) of
             (None, w1) \<Rightarrow> Inr (True, w1)
           | (Some p, w1) \<Rightarrow>
               (case socket_map w1 p of
                  None \<Rightarrow> Inl NullRecord
                | Some s \<Rightarrow>
                    if base s < 0 then Inr (True, w1)
                    else
                      bind_fault (i_socket_poll_state E w1 (nat (base s))) (\<lambda>(st, w2).
                        if st \<noteq> SOCKETSTATE_CONNECTED
                           \<or> fd (slot w2 (nat (base s))) = SOCKET_INVALID
                        then bind_fault (i_socket_available_nonblock_read E w2 p)
                               (\<lambda>(n, w3). Inr (n = 0,
                                              socket_destroy w3 (socket sockstream)))
                        else Inr (False, socket_destroy w2 (socket sockstream))))))"

text \<open>A sequence of reads on the records of a world: the transport's buffered read and
  the stream's read.\<close>

datatype read_op = BufferedRead object_t nat | StreamRead nat nat

fun run_reads :: "env \<Rightarrow> nat \<Rightarrow> world \<Rightarrow> read_op list \<Rightarrow> fault + world" where
  "run_reads E fuel w [] = Inr w"
| "run_reads E fuel w (BufferedRead p n # ops) =
     bind_fault (i_tcp_socket_buffer_read E w p n) (\<lambda>w1. run_reads E fuel w1 ops)"
| "run_reads E fuel w (StreamRead st n # ops) =
     bind_fault (i_socket_read E fuel w st n) (\<lambda>(k, w1). run_reads E fuel w1 ops)"

section \<open>The ring invariant\<close>

text \<open>
  The cursors of the read ring are within the buffer, for one record and for every record
  of the registry. \<open>ring_frame w w'\<close>: every record of \<open>w'\<close> is a record of \<open>w\<close> with
  the same two cursors.
\<close>

definition ring_inv :: "nat \<Rightarrow> socket_t \<Rightarrow> bool" where
  "ring_inv N s \<longleftrightarrow> offset_read_in s < N \<and> offset_write_in s < N"

definition ring_ok :: "nat \<Rightarrow> world \<Rightarrow> bool" where
  "ring_ok N w \<longleftrightarrow> (\<forall>p s. socket_map w p = Some s \<longrightarrow> ring_inv N s)"

definition ring_frame :: "world \<Rightarrow> world \<Rightarrow> bool" where
  "ring_frame w w' \<longleftrightarrow>
     (\<forall>q s'. socket_map w' q = Some s' \<longrightarrow>
        (\<exists>s. socket_map w q = Some s \<and> offset_read_in s' = offset_read_in s
              \<and> offset_write_in s' = offset_write_in s))"

section \<open>Concrete states\<close>

text \<open>
  A kernel that refuses everything with \<^verbatim>\<open>EAGAIN\<close>, a registry with one record, and a
  listening socket: the inputs at which the theorems below are evaluated.
\<close>

definition quiet_kernel :: env where
  "quiet_kernel =
     \<lparr>BUILD_SIZE_SOCKET_READBUFFER = 8, BUILD_ENABLE_DEBUG_LOG = False,
      sys_socket = (\<lambda>t. 3), sys_bind = (\<lambda>t. 0), sys_accept = (\<lambda>t. (- 1, 0)),
      sys_connect = (\<lambda>t. - 1), sys_select = (\<lambda>t. (0, False, False)),
      sys_errno = (\<lambda>t. EAGAIN), sys_so_error = (\<lambda>t. 0), sys_fionread = (\<lambda>t. (0, 0)),
      sys_recv = (\<lambda>t n. - 1), sys_setsockopt = (\<lambda>t. 0), sys_getsockname = (\<lambda>t. 0),
      read_fn_positive = (\<lambda>t. False)\<rparr>"

definition fresh_socket :: socket_t where
  "fresh_socket =
     \<lparr>sid = 1, ref = 1, base = - 1, family = NETWORK_ADDRESSFAMILY_IPV4,
      address_local = None, address_remote = None,
      offset_read_in = 0, offset_write_in = 0, offset_write_out = 0,
      bytes_read = 0, bytes_written = 0, stream = None\<rparr>"

definition one_socket :: "socket_t \<Rightarrow> socket_base_t \<Rightarrow> world" where
  "one_socket s sb =
     (i_socket_initialize 2)
       \<lparr>socket_map_used := 1, socket_map_fresh := 2, socket_map := [1 \<mapsto> s],
        socket_base := [sb, zero_slot], socket_base_next := 1\<rparr>"

definition loopback :: network_address_t where
  "loopback = \<lparr>addr_family = NETWORK_ADDRESSFAMILY_IPV4, saddr = 7\<rparr>"

definition bound_socket :: socket_t where
  "bound_socket = fresh_socket\<lparr>base := 0, address_local := Some loopback\<rparr>"

definition listener_world :: world where
  "listener_world =
     one_socket bound_socket
       \<lparr>object = 1, fd = 5, flags = {SOCKETFLAG_BLOCKING, SOCKETFLAG_REUSE_ADDR},
        state = SOCKETSTATE_LISTENING, last_event = 0\<rparr>"

text \<open>A slot that still shows a connected descriptor while its identifier no longer
  resolves in the registry.\<close>

definition orphan_world :: world where
  "orphan_world =
     (i_socket_initialize 1)
       \<lparr>socket_base := [\<lparr>object = 1, fd = 5, flags = {},
                          state = SOCKETSTATE_CONNECTED, last_event = 0\<rparr>]\<rparr>"

definition connecting_socket :: socket_t where
  "connecting_socket = fresh_socket\<lparr>base := 0\<rparr>"

definition connecting_world :: world where
  "connecting_world =
     one_socket connecting_socket
       \<lparr>object = 1, fd = 5, flags = {}, state = SOCKETSTATE_CONNECTING, last_event = 0\<rparr>"

definition select_error :: env where
  "select_error = quiet_kernel\<lparr>sys_select := (\<lambda>t. (1, True, True))\<rparr>"

definition select_writable :: env where
  "select_writable = quiet_kernel\<lparr>sys_select := (\<lambda>t. (1, True, False))\<rparr>"

definition probe_fails :: env where
  "probe_fails = quiet_kernel\<lparr>sys_fionread := (\<lambda>t. (- 1, 0))\<rparr>"

text \<open>A record with a stream adapter attached: two references, one of them the adapter's.\<close>

definition streamed_socket :: socket_t where
  "streamed_socket = fresh_socket\<lparr>ref := 2, stream := Some 1\<rparr>"

definition streamed_world :: world where
  "streamed_world =
     (one_socket streamed_socket zero_slot)
       \<lparr>streams := [1 \<mapsto> \<lparr>socket = 1\<rparr>], streams_fresh := 2\<rparr>"

text \<open>A client socket that has no slot yet, and a kernel whose \<^verbatim>\<open>connect\<close> is in
  progress.\<close>

definition client_world :: world where
  "client_world = one_socket fresh_socket zero_slot"

definition in_progress :: env where
  "in_progress = quiet_kernel\<lparr>sys_errno := (\<lambda>t. EINPROGRESS)\<rparr>"

text \<open>
  Two sockets with a stream adapter: one that was closed while three bytes were still in
  its ring, and one in state DISCONNECTED whose ring is empty while the kernel reports four
  bytes.
\<close>

definition closed_with_data :: world where
  "closed_with_data =
     (one_socket (fresh_socket\<lparr>offset_write_in := 3, stream := Some 1\<rparr>) zero_slot)
       \<lparr>streams := [1 \<mapsto> \<lparr>socket = 1\<rparr>], streams_fresh := 2\<rparr>"

definition disconnected_socket :: socket_t where
  "disconnected_socket = fresh_socket\<lparr>base := 0, stream := Some 1\<rparr>"

definition disconnected_world :: world where
  "disconnected_world =
     (one_socket disconnected_socket
        \<lparr>object = 1, fd = 5, flags = {}, state = SOCKETSTATE_DISCONNECTED, last_event = 0\<rparr>)
       \<lparr>streams := [1 \<mapsto> \<lparr>socket = 1\<rparr>], streams_fresh := 2\<rparr>"

definition pending_bytes :: env where
  "pending_bytes = quiet_kernel\<lparr>sys_fionread := (\<lambda>t. (0, 4))\<rparr>"

text \<open>
  A connected socket with a stream adapter, and a kernel that has five bytes for it and
  hands out at most five per \<^verbatim>\<open>recv\<close>.
\<close>

definition connected_socket :: socket_t where
  "connected_socket = fresh_socket\<lparr>ref := 2, base := 0, stream := Some 1\<rparr>"

definition connected_world :: world where
  "connected_world =
     (one_socket connected_socket
        \<lparr>object = 1, fd = 5, flags = {}, state = SOCKETSTATE_CONNECTED, last_event = 0\<rparr>)
       \<lparr>streams := [1 \<mapsto> \<lparr>socket = 1\<rparr>], streams_fresh := 2\<rparr>"

definition receiving :: env where
  "receiving = quiet_kernel\<lparr>sys_fionread := (\<lambda>t. (0, 5)),
                             sys_recv := (\<lambda>t len. int (min len 5))\<rparr>"

section \<open>Frame lemmas for the state updates\<close>

lemma bind_fault_simps [simp]:
  "bind_fault (Inl e) f = Inl e"
  "bind_fault (Inr x) f = f x"
  by (simp_all add: bind_fault_def)

lemma sock_update_Some:
  "socket_map w p = Some s \<Longrightarrow> sock_update p f w = w\<lparr>socket_map := (socket_map w)(p \<mapsto> f s)\<rparr>"
  by (simp add: sock_update_def)

lemma sock_update_None [simp]:
  "socket_map w p = None \<Longrightarrow> sock_update p f w = w"
  by (simp add: sock_update_def)

lemma sock_update_fields [simp]:
  "socket_base (sock_update p f w) = socket_base w"
  "socket_base_next (sock_update p f w) = socket_base_next w"
  "socket_base_size (sock_update p f w) = socket_base_size w"
  "streams (sock_update p f w) = streams w"
  "tick (sock_update p f w) = tick w"
  "hangup_events (sock_update p f w) = hangup_events w"
  "slot (sock_update p f w) b = slot w b"
  by (simp_all add: sock_update_def slot_def split: option.split)

lemma sock_update_map:
  "socket_map (sock_update p f w) q = (if q = p then map_option f (socket_map w p) else socket_map w q)"
  by (simp add: sock_update_def split: option.split)

lemma slot_update_fields [simp]:
  "socket_map (slot_update b f w) = socket_map w"
  "socket_base_next (slot_update b f w) = socket_base_next w"
  "socket_base_size (slot_update b f w) = socket_base_size w"
  "streams (slot_update b f w) = streams w"
  "tick (slot_update b f w) = tick w"
  "hangup_events (slot_update b f w) = hangup_events w"
  "length (socket_base (slot_update b f w)) = length (socket_base w)"
  by (simp_all add: slot_update_def)

lemma slot_slot_update:
  "slot (slot_update b f w) c = (if c = b \<and> b < length (socket_base w) then f (slot w b) else slot w c)"
  by (cases "b < length (socket_base w)") (auto simp add: slot_update_def slot_def nth_list_update list_update_beyond)

lemma next_tick_fields [simp]:
  "socket_map (next_tick w) = socket_map w"
  "socket_base (next_tick w) = socket_base w"
  "streams (next_tick w) = streams w"
  "tick (next_tick w) = tick w + 1"
  "slot (next_tick w) b = slot w b"
  by (simp_all add: next_tick_def slot_def)

lemma lookup_Some:
  "socket_map w i = Some s \<Longrightarrow>
     i_socket_lookup w i = (Some i, w\<lparr>socket_map := (socket_map w)(i \<mapsto> s\<lparr>ref := ref s + 1\<rparr>)\<rparr>)"
  by (simp add: i_socket_lookup_def sock_update_def)

lemma lookup_None [simp]:
  "socket_map w i = None \<Longrightarrow> i_socket_lookup w i = (None, w)"
  by (simp add: i_socket_lookup_def)

lemma close_Some:
  "socket_map w p = Some s \<Longrightarrow> i_socket_close w p =
     (if base s \<ge> 0 then
        w\<lparr>socket_base := (socket_base w)[nat (base s) := (socket_base w ! nat (base s))\<lparr>object := 0, fd := SOCKET_INVALID,
                                         state := SOCKETSTATE_NOTCONNECTED, flags := {}\<rparr>],
          socket_map := (socket_map w)(p \<mapsto> s\<lparr>base := - 1, address_local := None, address_remote := None\<rparr>)\<rparr>
      else w\<lparr>socket_map := (socket_map w)(p \<mapsto> s\<lparr>address_local := None, address_remote := None\<rparr>)\<rparr>)"
  by (simp add: i_socket_close_def sock_update_def slot_update_def)

lemma close_None [simp]: "socket_map w p = None \<Longrightarrow> i_socket_close w p = w"
  by (simp add: i_socket_close_def)

lemma close_idem: "i_socket_close (i_socket_close w p) p = i_socket_close w p"
proof (cases "socket_map w p")
  case None
  then show ?thesis by simp
next
  case (Some s)
  then show ?thesis by (cases s) (simp add: close_Some)
qed

lemma destroy_live:
  "socket_map w i = Some s \<Longrightarrow> ref s \<noteq> 1 \<Longrightarrow>
     socket_destroy w i = w\<lparr>socket_map := (socket_map w)(i \<mapsto> s\<lparr>ref := ref s - 1\<rparr>)\<rparr>"
  by (simp add: socket_destroy_def sock_update_def)

lemma destroy_last:
  "socket_map w i = Some s \<Longrightarrow> ref s = 1 \<Longrightarrow>
     socket_destroy w i = i_socket_deallocate (w\<lparr>socket_map := (socket_map w)(i \<mapsto> s\<lparr>ref := 0\<rparr>)\<rparr>) i"
  by (simp add: socket_destroy_def sock_update_def)

lemma destroy_None [simp]: "socket_map w i = None \<Longrightarrow> socket_destroy w i = w"
  by (simp add: socket_destroy_def)

lemma dealloc_map [simp]: "socket_map (i_socket_deallocate w p) p = None"
  by (simp add: i_socket_deallocate_def Let_def split: option.split)

lemma socket_close_None: "socket_map w i = None \<Longrightarrow> socket_close w i = w"
  by (simp add: socket_close_def)

lemma socket_close_live:
  assumes "socket_map w i = Some s" "ref s \<noteq> 0"
  shows "socket_close w i = i_socket_close w i"
  using assms
  by (cases s) (simp add: socket_close_def lookup_Some destroy_live close_Some)

lemma socket_close_dead:
  assumes "socket_map w i = Some s" "ref s = 0"
  shows "socket_close w i = i_socket_deallocate (i_socket_close w i) i"
  using assms
  by (cases s) (simp add: socket_close_def lookup_Some destroy_last close_Some)

lemma socket_close_twice: "socket_close (socket_close w i) i = socket_close w i"
proof (cases "socket_map w i")
  case None
  then show ?thesis by (simp add: socket_close_None)
next
  case (Some s)
  show ?thesis
  proof (cases "ref s = 0")
    case True
    then show ?thesis using Some by (simp add: socket_close_dead socket_close_None)
  next
    case False
    have "\<exists>s'. socket_map (i_socket_close w i) i = Some s' \<and> ref s' = ref s"
      using Some by (simp add: close_Some)
    then obtain s' where s': "socket_map (i_socket_close w i) i = Some s'" "ref s' = ref s"
      by blast
    show ?thesis
      using Some False s' by (simp add: socket_close_live close_idem)
  qed
qed

lemma search_claims:
  "socket_base_search w p ident m = Some y \<Longrightarrow> \<forall>b w'. y = Inr (b, w') \<longrightarrow> claimed w p ident b w'"
proof (induct rule: socket_base_search.raw_induct [rotated 1, consumes 1, case_names step])
  case (step search w p ident m y)
  let ?w1 = "w\<lparr>socket_base_next := wrap32 (socket_base_next w + 1)\<rparr>"
  have frame: "claimed ?w1 p ident b w' \<Longrightarrow> claimed w p ident b w'" for b w'
    by (simp add: claimed_def slot_def sock_update_def split: option.splits)
  have rec: "search ?w1 p ident m = Some y \<Longrightarrow> ?case"
    using step(1) frame by blast
  from step(2) show ?case
    apply (simp add: Let_def split: if_splits)
       apply (erule rec)
      apply blast
     apply (erule rec)
    apply (auto simp add: claimed_def slot_def slot_update_def sock_update_def split: option.splits)
    done
qed

lemma allocate_base_has:
  "socket_map w p = Some s \<Longrightarrow> 0 \<le> base s \<Longrightarrow> i_socket_allocate_base w p = Inr (base s, w)"
  by (simp add: i_socket_allocate_base_def)

lemma allocate_base_Inr:
  assumes "i_socket_allocate_base w p = Inr (b, w')" and "socket_map w p = Some s"
  shows "(0 \<le> base s \<and> b = base s \<and> w' = w) \<or> (base s < 0 \<and> claimed w p (sid s) b w')"
proof (cases "0 \<le> base s")
  case True
  then show ?thesis using assms by (simp add: i_socket_allocate_base_def)
next
  case False
  then obtain y where y: "socket_base_search w p (sid s) (socket_base_size w) = Some y" "y = Inr (b, w')"
    using assms by (auto simp add: i_socket_allocate_base_def split: option.splits)
  then show ?thesis using False search_claims by fastforce
qed

lemma allocate_base_record:
  assumes "i_socket_allocate_base w p = Inr (b, w')" and "socket_map w p = Some s"
  shows "socket_map w' = (socket_map w)(p \<mapsto> s\<lparr>base := b\<rparr>) \<and> 0 \<le> b"
  using allocate_base_Inr [OF assms] assms(2)
  by (auto simp add: claimed_def sock_update_Some map_upd_triv)

lemma allocate_base_None:
  "socket_map w p = None \<Longrightarrow> i_socket_allocate_base w p = Inl NullRecord"
  by (simp add: i_socket_allocate_base_def)

lemma set_blocking_has:
  "socket_map w p = Some s \<Longrightarrow> 0 \<le> base s \<Longrightarrow>
     i_socket_set_blocking w p bl = Inr (slot_update (nat (base s)) (set_flag SOCKETFLAG_BLOCKING bl) w)"
  by (simp add: i_socket_set_blocking_def allocate_base_has)

lemma set_reuse_address_has:
  "socket_map w p = Some s \<Longrightarrow> 0 \<le> base s \<Longrightarrow>
     i_socket_set_reuse_address w p bl = Inr (slot_update (nat (base s)) (set_flag SOCKETFLAG_REUSE_ADDR bl) w)"
  by (simp add: i_socket_set_reuse_address_def allocate_base_has)

lemma set_reuse_port_has:
  "socket_map w p = Some s \<Longrightarrow> 0 \<le> base s \<Longrightarrow>
     i_socket_set_reuse_port w p bl = Inr (slot_update (nat (base s)) (set_flag SOCKETFLAG_REUSE_PORT bl) w)"
  by (simp add: i_socket_set_reuse_port_def allocate_base_has)

lemma set_delay_has:
  "socket_map w p = Some s \<Longrightarrow> 0 \<le> base s \<Longrightarrow>
     i_tcp_socket_set_delay w p bl = Inr (slot_update (nat (base s)) (set_flag SOCKETFLAG_TCPDELAY bl) w)"
  by (simp add: i_tcp_socket_set_delay_def)

lemma open_map:
  assumes "socket_map w p = Some s" and "0 \<le> base s" and "i_tcp_socket_open E w p fam = Inr w'"
  shows "socket_map w' = socket_map w"
  using assms
  by (auto simp add: i_tcp_socket_open_def Let_def set_blocking_has set_delay_has split: if_splits)

lemma create_fd_record:
  assumes "i_socket_create_fd E w p fam = Inr (fdv, w')" and "fdv \<noteq> SOCKET_INVALID"
    and "socket_map w p = Some s"
  shows "\<exists>s'. socket_map w' p = Some s' \<and> ref s' = ref s \<and> 0 \<le> base s'
               \<and> fd (slot w' (nat (base s'))) = fdv"
proof -
  obtain b0 w1 where a: "i_socket_allocate_base w p = Inr (b0, w1)"
    using assms(1) by (cases "i_socket_allocate_base w p") (auto simp add: i_socket_create_fd_def)
  define s1 where "s1 = s\<lparr>base := b0\<rparr>"
  have m1: "socket_map w1 = (socket_map w)(p \<mapsto> s1)" and b0: "0 \<le> b0"
    using allocate_base_record [OF a assms(3)] by (simp_all add: s1_def)
  have m1p: "socket_map w1 p = Some s1" using m1 by simp
  have bs1: "0 \<le> base s1" "ref s1 = ref s" "base s1 = b0" using b0 by (simp_all add: s1_def)
  let ?b = "nat b0"
  show ?thesis
  proof (cases "fd (slot w1 ?b) = SOCKET_INVALID")
    case False
    then have "fdv = fd (slot w1 ?b) \<and> w' = w1"
      using assms(1,2) a b0 m1p bs1
      by (auto simp add: i_socket_create_fd_def Let_def split: if_splits)
    then show ?thesis using m1p bs1 by simp
  next
    case True
    then obtain w2 where o: "i_tcp_socket_open E w1 p fam = Inr w2"
      using assms(1,2) a b0 m1p bs1
      by (cases "i_tcp_socket_open E w1 p fam") (auto simp add: i_socket_create_fd_def Let_def split: if_splits)
    have m2: "socket_map w2 = socket_map w1"
      using open_map [OF m1p bs1(1) o] .
    define s3 where "s3 = s1\<lparr>family := fam\<rparr>"
    define w3 where "w3 = sock_update p (\<lambda>s. s\<lparr>family := fam\<rparr>) w2"
    have m3: "socket_map w3 p = Some s3" and bs3: "0 \<le> base s3" "base s3 = b0" "ref s3 = ref s"
      using m2 m1p bs1 by (simp_all add: w3_def s3_def sock_update_map)
    show ?thesis
      using assms(1,2) a b0 m1p bs1 True o m3 bs3
      apply (simp add: i_socket_create_fd_def Let_def w3_def [symmetric] split: if_splits)
      apply (simp add: set_blocking_has [OF m3 bs3(1)] set_reuse_address_has set_reuse_port_has)
      apply auto
      done
  qed
qed

lemma store_address_local_frame:
  assumes "i_socket_store_address_local E w p fam = Inr w'" and "socket_map w p = Some s"
  shows "socket_base w' = socket_base w
       \<and> (\<exists>s'. socket_map w' = (socket_map w)(p \<mapsto> s') \<and> ref s' = ref s \<and> base s' = base s
                \<and> sid s' = sid s \<and> stream s' = stream s)"
  using assms
  by (auto simp add: i_socket_store_address_local_def sock_update_Some map_upd_triv split: if_splits
           intro: exI [where x = s])

lemma u32_id: "0 \<le> x \<Longrightarrow> x < 2 ^ 32 \<Longrightarrow> u32 x = nat x"
  by (simp add: u32_def)

lemma usub_eq: "b \<le> a \<Longrightarrow> a < 2 ^ 32 \<Longrightarrow> usub a b = a - b"
  by (simp add: usub_def u32_def nat_diff_distrib')

lemma buffered_in_ring:
  assumes "offset_read_in s < N" and "offset_write_in s < N" and "N < 2 ^ 32"
    and "BUILD_SIZE_SOCKET_READBUFFER E = N"
  shows "i_socket_buffered_in E (Some s)
           = Inr (if offset_read_in s \<le> offset_write_in s
                  then offset_write_in s - offset_read_in s
                  else N - offset_read_in s + offset_write_in s)"
proof (cases "offset_read_in s \<le> offset_write_in s")
  case True
  then show ?thesis using assms by (simp add: i_socket_buffered_in_def usub_eq)
next
  case False
  have "usub N (offset_read_in s) = N - offset_read_in s"
    using assms by (simp add: usub_eq)
  moreover have "int (N - offset_read_in s) + int (offset_write_in s) < 2 ^ 32"
    using assms False by auto
  ultimately show ?thesis
    using False assms by (simp add: i_socket_buffered_in_def u32_id nat_add_distrib)
qed

lemma available_fd_frame:
  "i_socket_available_fd E w fdv = (a, w') \<Longrightarrow>
     socket_map w' = socket_map w \<and> socket_base w' = socket_base w \<and> streams w' = streams w"
  by (auto simp add: i_socket_available_fd_def split: if_splits prod.splits)

lemma available_fd_bound:
  "\<forall>t. snd (sys_fionread E t) < 2 ^ 31 \<Longrightarrow> fst (i_socket_available_fd E w fdv) < 2 ^ 31"
proof -
  assume a: "\<forall>t. snd (sys_fionread E t) < 2 ^ 31"
  have "snd (sys_fionread E (tick w)) < 2 ^ 31" using a by blast
  then show ?thesis
    by (auto simp add: i_socket_available_fd_def split: prod.splits)
qed

section \<open>Frame lemmas for accept\<close>

lemma free_keeps_slot:
  "socket_map W ident = Some s1 \<Longrightarrow> ref s1 \<noteq> 1 \<Longrightarrow> slot (socket_free W ident) b = slot W b"
  by (simp add: socket_free_def destroy_live slot_def)

lemma accept_outcome_frame:
  "accept_outcome E w t = (fdv, peer, w') \<Longrightarrow>
     socket_map w' = socket_map w \<and> socket_base w' = socket_base w
     \<and> socket_map_fresh w' = socket_map_fresh w"
  by (auto simp add: accept_outcome_def Let_def next_tick_def split: prod.splits if_splits)

lemma slot_update_fresh [simp]:
  "socket_map_fresh (slot_update b f w) = socket_map_fresh w"
  by (simp add: slot_update_def)

lemma accept_install_slot:
  assumes m: "socket_map W ident = Some s1" and r: "ref s1 \<noteq> 1"
    and o: "object (slot W b) \<noteq> 0" and len: "b < length (socket_base W)"
    and fr: "socket_map W (socket_map_fresh W) = None"
    and ai: "accept_install E W ident al fdv peer = Inr (res, W')"
  shows "slot W' b = slot W b"
proof (cases "socket_map_used W \<ge> socket_map_size W \<or> socket_map_fresh W = 0")
  case True
  then have "\<exists>W1. i_tcp_socket_allocate W = (None, W1)
            \<and> socket_map W1 = socket_map W \<and> socket_base W1 = socket_base W"
    by (cases "socket_map_size W \<le> socket_map_used W")
       (auto simp add: i_tcp_socket_allocate_def i_socket_allocate_def objectmap_reserve_def)
  then obtain W1 where a: "i_tcp_socket_allocate W = (None, W1)"
    and k: "socket_map W1 = socket_map W" "socket_base W1 = socket_base W"
    by blast
  have "W' = socket_free W1 ident" using ai a by (simp add: accept_install_def)
  then show ?thesis
    using free_keeps_slot [of W1 ident s1 b] m r k by (simp add: slot_def)
next
  case False
  define a where "a = socket_map_fresh W"
  have ne: "a \<noteq> ident" using m fr by (auto simp add: a_def)
  define newrec where "newrec =
                     \<lparr>sid = a, ref = 1, base = - 1, family = NETWORK_ADDRESSFAMILY_IPV4,
                      address_local = None, address_remote = None,
                      offset_read_in = 0, offset_write_in = 0, offset_write_out = 0,
                      bytes_read = 0, bytes_written = 0, stream = None\<rparr>"
  obtain W1 where al1: "i_tcp_socket_allocate W = (Some a, W1)"
    and m1: "socket_map W1 = (socket_map W)(a \<mapsto> newrec)" and sb1: "socket_base W1 = socket_base W"
    using False
    by (auto simp add: i_tcp_socket_allocate_def i_socket_allocate_def objectmap_reserve_def
          a_def newrec_def)
  have m1a: "socket_map W1 a = Some newrec" using m1 by simp
  obtain ab W2 where ab: "i_socket_allocate_base W1 a = Inr (ab, W2)"
    using ai al1
    by (cases "i_socket_allocate_base W1 a") (auto simp add: accept_install_def)
  have cl: "claimed W1 a a ab W2"
    using allocate_base_Inr [OF ab m1a] by (simp add: newrec_def)
  have nb: "nat ab \<noteq> b" using cl o sb1 by (auto simp add: claimed_def slot_def)
  have sl2: "slot W2 b = slot W b" and len2: "length (socket_base W2) = length (socket_base W)"
    using cl nb sb1 by (auto simp add: claimed_def slot_def)
  have m2: "socket_map W2 ident = Some s1"
    using cl m1 m ne by (auto simp add: claimed_def sock_update_map)
  have pos: "0 \<le> ab" using cl by (simp add: claimed_def)
  define W4 where "W4 = sock_update a
                          (\<lambda>s. s\<lparr>address_remote := Some (al\<lparr>saddr := peer\<rparr>)\<rparr>)
                          (slot_update (nat ab)
                          (\<lambda>sb. sb\<lparr>fd := fdv, state := SOCKETSTATE_CONNECTED\<rparr>) W2)"
  have sl4: "slot W4 b = slot W b" and m4: "socket_map W4 ident = Some s1"
    using sl2 m2 nb ne by (simp_all add: W4_def slot_slot_update sock_update_map)
  obtain s4 where m4a: "socket_map W4 a = Some s4"
    using cl m1a by (auto simp add: W4_def claimed_def sock_update_map)
  obtain W5 where st: "i_socket_store_address_local E W4 a (addr_family al) = Inr W5"
    and w': "W' = socket_free W5 ident"
    using ai al1 ab pos
    by (cases "i_socket_store_address_local E W4 a (addr_family al)")
       (auto simp add: accept_install_def Let_def W4_def)
  from store_address_local_frame [OF st m4a]
  have "socket_base W5 = socket_base W4" and "socket_map W5 ident = Some s1"
    using m4 ne by auto
  then show ?thesis
    using w' free_keeps_slot [of W5 ident s1 b] r sl4 by (simp add: slot_def)
qed

section \<open>Preservation of the ring invariant\<close>

named_theorems ring_intros

lemma ring_frame_refl [ring_intros]: "ring_frame w w"
  by (simp add: ring_frame_def)

lemma ring_frame_trans: "ring_frame w w1 \<Longrightarrow> ring_frame w1 w2 \<Longrightarrow> ring_frame w w2"
  unfolding ring_frame_def by (metis (no_types, lifting))

lemma ring_frame_map_eq: "socket_map w2 = socket_map w1 \<Longrightarrow> ring_frame w w1 \<Longrightarrow> ring_frame w w2"
  by (simp add: ring_frame_def)

lemma ring_ok_frame: "ring_ok N w \<Longrightarrow> ring_frame w w' \<Longrightarrow> ring_ok N w'"
  unfolding ring_ok_def ring_frame_def ring_inv_def by (metis (no_types, lifting))

lemma ring_frame_sock_update [ring_intros]:
  assumes "ring_frame w w1"
    and "\<And>s. offset_read_in (f s) = offset_read_in s \<and> offset_write_in (f s) = offset_write_in s"
  shows "ring_frame w (sock_update p f w1)"
  using assms unfolding ring_frame_def
  by (auto simp add: sock_update_map split: if_splits)

lemma ring_frame_slot_update [ring_intros]:
  "ring_frame w w1 \<Longrightarrow> ring_frame w (slot_update b f w1)"
  by (simp add: ring_frame_def)

lemma ring_frame_next_tick [ring_intros]:
  "ring_frame w w1 \<Longrightarrow> ring_frame w (next_tick w1)"
  by (simp add: ring_frame_def)

lemma ring_frame_fields [ring_intros]:
  "ring_frame w w1 \<Longrightarrow> ring_frame w (w1\<lparr>hangup_events := h\<rparr>)"
  "ring_frame w w1 \<Longrightarrow> ring_frame w (w1\<lparr>streams := x\<rparr>)"
  "ring_frame w w1 \<Longrightarrow> ring_frame w (w1\<lparr>socket_map_used := u\<rparr>)"
  by (simp_all add: ring_frame_def)

lemma ring_frame_remove [ring_intros]:
  "ring_frame w w1 \<Longrightarrow> ring_frame w (w1\<lparr>socket_map := (socket_map w1)(p := None)\<rparr>)"
  by (simp add: ring_frame_def)

lemma ring_frame_close [ring_intros]:
  "ring_frame w w1 \<Longrightarrow> ring_frame w (i_socket_close w1 p)"
  unfolding i_socket_close_def
  by (auto simp add: Let_def intro!: ring_intros split: option.split)

lemma ring_frame_sub:
  "ring_frame w w1 \<Longrightarrow> (\<And>q s. socket_map w2 q = Some s \<Longrightarrow> socket_map w1 q = Some s)
     \<Longrightarrow> ring_frame w w2"
  unfolding ring_frame_def by blast

lemma deallocate_map:
  "socket_map (i_socket_deallocate w p) = (socket_map (i_socket_close w p))(p := None)"
  by (simp add: i_socket_deallocate_def Let_def split: option.split)

lemma ring_frame_deallocate [ring_intros]:
  "ring_frame w w1 \<Longrightarrow> ring_frame w (i_socket_deallocate w1 p)"
  by (rule ring_frame_sub [OF ring_frame_close [of w w1 p]])
     (simp_all add: deallocate_map split: if_splits)

lemma ring_frame_destroy [ring_intros]:
  "ring_frame w w1 \<Longrightarrow> ring_frame w (socket_destroy w1 p)"
  unfolding socket_destroy_def
  by (auto simp add: Let_def intro!: ring_intros split: option.split)

lemma ring_frame_lookup [ring_intros]:
  "ring_frame w w1 \<Longrightarrow> ring_frame w (snd (i_socket_lookup w1 p))"
  unfolding i_socket_lookup_def
  by (auto simp add: Let_def intro!: ring_intros split: option.split)

lemma ring_frame_post_hangup [ring_intros]:
  "ring_frame w w1 \<Longrightarrow> ring_frame w (post_hangup b p w1)"
  unfolding post_hangup_def
  by (auto intro!: ring_intros)

lemma ring_frame_available_fd [ring_intros]:
  "ring_frame w w1 \<Longrightarrow> ring_frame w (snd (i_socket_available_fd E w1 fdv))"
  unfolding i_socket_available_fd_def
  by (auto intro!: ring_intros split: prod.split)

lemma ring_frame_poll_finish [ring_intros]:
  "ring_frame w w1 \<Longrightarrow> ring_frame w (snd (poll_finish w1 b sock))"
  unfolding poll_finish_def
  by (auto simp add: Let_def intro!: ring_intros split: option.split)

lemma ring_frame_poll_debug_lookup [ring_intros]:
  "ring_frame w w1 \<Longrightarrow> ring_frame w (snd (poll_debug_lookup E w1 b))"
  unfolding poll_debug_lookup_def
  by (auto intro!: ring_intros)

lemma ring_frame_poll_disconnected:
  assumes "ring_frame w w1" and "poll_disconnected E w1 b sock = Inr (st, w')"
  shows "ring_frame w w'"
proof -
  obtain sock1 w2 where l: "(case sock of None \<Rightarrow> i_socket_lookup w1 (object (slot w1 b))
            | Some p \<Rightarrow> (Some p, w1)) = (sock1, w2)"
    by (cases "(case sock of None \<Rightarrow> i_socket_lookup w1 (object (slot w1 b))
            | Some p \<Rightarrow> (Some p, w1))")
  have f2: "ring_frame w w2"
  proof (cases sock)
    case None
    then have "w2 = snd (i_socket_lookup w1 (object (slot w1 b)))" using l by simp
    then show ?thesis using assms(1) by (simp add: ring_intros)
  next
    case (Some p)
    then show ?thesis using l assms(1) by simp
  qed
  let ?W = "\<lambda>n::nat. if n = 0
                         then (case sock1 of None \<Rightarrow> w2 | Some p \<Rightarrow> i_socket_close w2 p)
                         else w2"
  have f3: "ring_frame w (?W n)" for n
    using f2 by (auto intro!: ring_intros split: option.split)
  obtain n where "poll_finish (?W n) b sock1 = (st, w')"
    using assms(2) l
    by (auto simp add: poll_disconnected_def bind_fault_def split: sum.splits)
  then have "w' = snd (poll_finish (?W n) b sock1)" by simp
  then show ?thesis using ring_frame_poll_finish [OF f3] by simp
qed

lemma ring_frame_poll_state:
  assumes "ring_frame w w1" and "i_socket_poll_state E w1 b = Inr (st, w')"
  shows "ring_frame w w'"
proof (cases "state (slot w1 b)")
  case SOCKETSTATE_NOTCONNECTED
  then show ?thesis using assms by (simp add: i_socket_poll_state_def)
next
  case SOCKETSTATE_DISCONNECTED
  then show ?thesis using assms by (simp add: i_socket_poll_state_def)
next
  case SOCKETSTATE_LISTENING
  then have "w' = snd (poll_finish w1 b None)"
    using assms(2) by (simp add: i_socket_poll_state_def)
  then show ?thesis using assms(1) by (simp add: ring_intros)
next
  case SOCKETSTATE_CONNECTING
  obtain ret fdwrite fderr where s: "sys_select E (tick w1) = (ret, fdwrite, fderr)"
    by (cases "sys_select E (tick w1)")
  let ?w2 = "next_tick w1"
  have f2: "ring_frame w ?w2" using assms(1) by (simp add: ring_intros)
  show ?thesis
  proof (cases fderr)
    case True
    obtain r w3 where l: "i_socket_lookup ?w2 (object (slot ?w2 b)) = (r, w3)"
      by (cases "i_socket_lookup ?w2 (object (slot ?w2 b))")
    have f3: "ring_frame w w3"
      using ring_frame_lookup [OF f2, of "object (slot ?w2 b)"] l by simp
    show ?thesis
    proof (cases r)
      case None
      then have "w' = snd (poll_finish w3 b None)"
        using assms(2) SOCKETSTATE_CONNECTING s True l
        by (simp add: i_socket_poll_state_def Let_def)
      then show ?thesis using f3 by (simp add: ring_intros)
    next
      case (Some p)
      then have "w' = snd (poll_finish (i_socket_close w3 p) b (Some p))"
        using assms(2) SOCKETSTATE_CONNECTING s True l
        by (simp add: i_socket_poll_state_def Let_def)
      then show ?thesis using f3 by (simp add: ring_intros)
    qed
  next
    case False
    show ?thesis
    proof (cases fdwrite)
      case True
      obtain r w3 where l: "poll_debug_lookup E ?w2 b = (r, w3)"
        by (cases "poll_debug_lookup E ?w2 b")
      have f3: "ring_frame w w3"
        using ring_frame_poll_debug_lookup [OF f2, of E b] l by simp
      have "w' = snd (poll_finish (slot_update b (\<lambda>sb. sb\<lparr>state := SOCKETSTATE_CONNECTED\<rparr>) w3) b r)"
        using assms(2) SOCKETSTATE_CONNECTING s True False l
        by (auto simp add: i_socket_poll_state_def Let_def)
      then show ?thesis using f3 by (auto intro!: ring_intros)
    next
      case f: False
      have "w' = snd (poll_finish ?w2 b None)"
        using assms(2) SOCKETSTATE_CONNECTING s f False
        by (auto simp add: i_socket_poll_state_def Let_def)
      then show ?thesis using f2 by (auto intro!: ring_intros)
    qed
  qed
next
  case SOCKETSTATE_CONNECTED
  obtain a w2 where av: "i_socket_available_fd E w1 (fd (slot w1 b)) = (a, w2)"
    by (cases "i_socket_available_fd E w1 (fd (slot w1 b))")
  have f2: "ring_frame w w2"
    using ring_frame_available_fd [OF assms(1), of E "fd (slot w1 b)"] av by simp
  show ?thesis
  proof (cases "a < 0")
    case True
    obtain r w3 where l: "poll_debug_lookup E w2 b = (r, w3)"
      by (cases "poll_debug_lookup E w2 b")
    have f3: "ring_frame w w3"
      using ring_frame_poll_debug_lookup [OF f2, of E b] l by simp
    have "poll_disconnected E (slot_update b (\<lambda>sb. sb\<lparr>state := SOCKETSTATE_DISCONNECTED\<rparr>) w3) b r
            = Inr (st, w')"
      using assms(2) SOCKETSTATE_CONNECTED av True l
      by (simp add: i_socket_poll_state_def)
    then show ?thesis
      using f3 ring_frame_poll_disconnected ring_frame_slot_update by blast
  next
    case False
    have "w' = snd (poll_finish w2 b None)"
      using assms(2) SOCKETSTATE_CONNECTED av False
      by (simp add: i_socket_poll_state_def)
    then show ?thesis using f2 by (auto intro!: ring_intros)
  qed
qed

lemma ring_ok_sock_update:
  assumes "ring_ok N w" and "\<And>s. socket_map w p = Some s \<Longrightarrow> ring_inv N s \<Longrightarrow> ring_inv N (f s)"
  shows "ring_ok N (sock_update p f w)"
  using assms unfolding ring_ok_def
  by (auto simp add: sock_update_map split: if_splits)

lemma buffer_read_result_ring:
  assumes "BUILD_SIZE_SOCKET_READBUFFER E = N"
    and "ring_ok N w"
    and "buffer_read_result E w p b n available try_read ret = Inr (w', r)"
  shows "ring_ok N w'"
proof (cases "ret = 0")
  case True
  then have "w' = post_hangup b p (i_socket_close w p)"
    using assms(3) by (simp add: buffer_read_result_def)
  then have "ring_frame w w'" by (simp add: ring_intros)
  then show ?thesis using assms(2) ring_ok_frame by blast
next
  case r0: False
  show ?thesis
  proof (cases "ret > 0")
    case True
    have w': "w' = sock_update p
                    (\<lambda>s. s\<lparr>offset_write_in :=
                             (if u32 (int (offset_write_in s) + ret) \<ge> N then 0
                              else u32 (int (offset_write_in s) + ret))\<rparr>) w"
      using assms(1,3) r0 True by (auto simp add: buffer_read_result_def Let_def)
    show ?thesis
      unfolding w' using assms(2)
      by (rule ring_ok_sock_update) (auto simp add: ring_inv_def)
  next
    case neg: False
    define w4 where "w4 = (if sys_errno E (tick w) = ECONNRESET \<or> sys_errno E (tick w) = EPIPE
                              \<or> sys_errno E (tick w) = ETIMEDOUT
                           then post_hangup b p (i_socket_close (next_tick w) p)
                           else next_tick w)"
    have f4: "ring_frame w w4" by (auto simp add: w4_def intro!: ring_intros)
    obtain st where "i_socket_poll_state E w4 b = Inr (st, w')"
      using assms(3) r0 neg
      by (auto simp add: buffer_read_result_def Let_def w4_def bind_fault_def split: sum.splits)
    then have "ring_frame w w'" using f4 ring_frame_poll_state by blast
    then show ?thesis using assms(2) ring_ok_frame by blast
  qed
qed

lemma buffer_read_step_ring:
  assumes N: "BUILD_SIZE_SOCKET_READBUFFER E = N"
    and ok: "ring_ok N w"
    and step: "buffer_read_step E w p n = Inr (w', r)"
  shows "ring_ok N w'"
proof (cases "socket_map w p")
  case None
  then show ?thesis using step by (simp add: buffer_read_step_def)
next
  case (Some s)
  obtain avail w1 where av: "i_socket_available_fd E w (fd (slot w (nat (base s)))) = (avail, w1)"
    by (cases "i_socket_available_fd E w (fd (slot w (nat (base s))))")
  have f1: "ring_frame w w1"
    using ring_frame_available_fd [OF ring_frame_refl, of w E "fd (slot w (nat (base s)))"] av
    by simp
  have ok1: "ring_ok N w1" using ok f1 ring_ok_frame by blast
  have ok2: "ring_ok N (next_tick w1)"
    using ok f1 ring_ok_frame ring_frame_next_tick by blast
  have "w' = w \<or> w' = w1
        \<or> (\<exists>a t x. buffer_read_result E (next_tick w1) p (nat (base s)) n a t x = Inr (w', r))"
    using step Some av
    by (auto simp add: buffer_read_step_def Let_def split: if_splits)
  then show ?thesis
    using ok ok1 ok2 buffer_read_result_ring [OF N] by blast
qed

lemma buffer_read_ring:
  "BUILD_SIZE_SOCKET_READBUFFER E = N \<Longrightarrow> ring_ok N w
     \<Longrightarrow> i_tcp_socket_buffer_read E w p n = Inr w' \<Longrightarrow> ring_ok N w'"
proof (induction E w p n rule: i_tcp_socket_buffer_read.induct)
  case (1 E w p n)
  show ?case
  proof (cases "buffer_read_step E w p n")
    case (Inl f)
    then show ?thesis using 1(4) by simp
  next
    case (Inr x)
    obtain w1 r where x: "x = (w1, r)" by (cases x)
    have "buffer_read_step E w p n = Inr (w1, r)" using Inr x by simp
    then have ok1: "ring_ok N w1"
      using buffer_read_step_ring [OF 1(2) 1(3)] by blast
    show ?thesis
    proof (cases r)
      case None
      then show ?thesis using 1(4) Inr x ok1 by simp
    next
      case (Some rest)
      then have "i_tcp_socket_buffer_read E w1 p rest = Inr w'"
        using 1(4) Inr x by simp
      then show ?thesis using 1(1) [OF Inr x [symmetric] Some 1(2) ok1] by blast
    qed
  qed
qed

lemma read_advance_ring:
  assumes "ring_inv N s" and "N < 2 ^ 32"
  shows "ring_inv N (read_advance N s (read_copy N sz s was_read))"
proof -
  let ?c = "read_copy N sz s was_read"
  have inv: "offset_read_in s < N" "offset_write_in s < N"
    using assms(1) by (simp_all add: ring_inv_def)
  have "?c \<le> (if offset_write_in s \<ge> offset_read_in s
                   then usub (offset_write_in s) (offset_read_in s)
                   else usub N (offset_read_in s))"
    by (simp add: read_copy_def Let_def)
  also have "\<dots> = (if offset_write_in s \<ge> offset_read_in s
                   then offset_write_in s - offset_read_in s
                   else N - offset_read_in s)"
    using inv assms(2) by (auto simp add: usub_eq)
  finally have sum: "offset_read_in s + ?c \<le> N"
    using inv by (auto split: if_splits)
  have "int (offset_read_in s) + int ?c < 2 ^ 32"
    using sum assms(2) by auto
  then have "u32 (int (offset_read_in s) + int ?c) = offset_read_in s + ?c"
    by (simp add: u32_id nat_add_distrib)
  then show ?thesis
    using sum inv by (auto simp add: read_advance_def ring_inv_def)
qed

lemma drain_ring:
  "ring_inv N s \<Longrightarrow> N < 2 ^ 32 \<Longrightarrow> socket_read_drain N sz s was_read ta = (s', wr', ta')
     \<Longrightarrow> ring_inv N s'"
proof (induction N sz s was_read ta rule: socket_read_drain.induct)
  case (1 N sz s was_read try_again)
  show ?case
  proof (cases "read_copy N sz s was_read > 0")
    case True
    have "socket_read_drain N sz (read_advance N s (read_copy N sz s was_read))
             (was_read + read_copy N sz s was_read) True = (s', wr', ta')"
      using 1(4) True by (subst (asm) socket_read_drain.simps) simp
    then show ?thesis
      using 1(1) [OF True read_advance_ring [OF 1(2) 1(3)] 1(3)] by blast
  next
    case False
    then have "s' = s"
      using 1(4) by (subst (asm) socket_read_drain.simps) simp
    then show ?thesis using 1(2) by simp
  qed
qed

lemma ring_ok_next_tick: "ring_ok N w \<Longrightarrow> ring_ok N (next_tick w)"
  by (simp add: ring_ok_def)

lemma read_loop_ring:
  "BUILD_SIZE_SOCKET_READBUFFER E = N \<Longrightarrow> N < 2 ^ 32 \<Longrightarrow> ring_ok N w
     \<Longrightarrow> socket_read_loop fuel E w p blocking polled sz was_read loop_counter = Inr (k, w')
     \<Longrightarrow> ring_ok N w'"
proof (induction fuel arbitrary: w was_read loop_counter)
  case 0
  then show ?case by simp
next
  case (Suc fuel)
  from Suc.prems(4) obtain s where s: "socket_map w p = Some s"
    by (cases "socket_map w p") simp_all
  obtain s1 was_read1 try_again1
    where d: "socket_read_drain N sz s was_read False = (s1, was_read1, try_again1)"
    by (cases "socket_read_drain N sz s was_read False")
  have inv: "ring_inv N s" using Suc.prems(3) s by (simp add: ring_ok_def)
  have inv1: "ring_inv N s1" using drain_ring [OF inv Suc.prems(2) d] .
  define wd where "wd = sock_update p (\<lambda>_. s1) w"
  have okd: "ring_ok N wd"
    unfolding wd_def using Suc.prems(3) inv1 by (auto intro: ring_ok_sock_update)
  define mid where "mid =
                 (if was_read1 < sz \<and> ((\<not> blocking \<and> \<not> polled) \<or> blocking)
                  then bind_fault
                         (i_tcp_socket_buffer_read E wd p ((sz - was_read1) mod 2 ^ 32))
                         (\<lambda>w2. Inr (try_again1 \<or> read_fn_positive E (tick w2), next_tick w2))
                  else Inr (try_again1, wd))"
  have step: "socket_read_loop (Suc fuel) E w p blocking polled sz was_read loop_counter =
               bind_fault mid
                 (\<lambda>(try_again2, w3).
                    if was_read1 < sz \<and> try_again2
                    then socket_read_loop fuel E w3 p blocking polled sz was_read1 loop_counter
                    else if was_read1 < sz \<and> loop_counter + 1 < 2
                    then socket_read_loop fuel E w3 p blocking polled sz was_read1
                           (loop_counter + 1)
                    else Inr (was_read1, w3))"
    using s d Suc.prems(1) by (simp add: mid_def wd_def)
  obtain ta2 w3 where m: "mid = Inr (ta2, w3)"
    using Suc.prems(4) step by (cases mid) auto
  have ok3: "ring_ok N w3"
  proof (cases "was_read1 < sz \<and> ((\<not> blocking \<and> \<not> polled) \<or> blocking)")
    case True
    then obtain w2 where b: "i_tcp_socket_buffer_read E wd p ((sz - was_read1) mod 2 ^ 32) = Inr w2"
      and w3: "w3 = next_tick w2"
      using m by (cases "i_tcp_socket_buffer_read E wd p ((sz - was_read1) mod 2 ^ 32)")
                 (auto simp add: mid_def)
    have "ring_ok N w2" using buffer_read_ring [OF Suc.prems(1) okd b] .
    then show ?thesis using w3 by (simp add: ring_ok_next_tick)
  next
    case False
    then have "w3 = wd" using m by (auto simp add: mid_def)
    then show ?thesis using okd by simp
  qed
  have "socket_read_loop fuel E w3 p blocking polled sz was_read1 loop_counter = Inr (k, w')
        \<or> socket_read_loop fuel E w3 p blocking polled sz was_read1 (loop_counter + 1) = Inr (k, w')
        \<or> w' = w3"
    using Suc.prems(4) step m by (auto split: if_splits)
  then show ?case
    using Suc.IH [OF Suc.prems(1,2) ok3] ok3 by blast
qed

lemma socket_read_ring:
  assumes "BUILD_SIZE_SOCKET_READBUFFER E = N" and "N < 2 ^ 32" and "ring_ok N w"
    and "i_socket_read E fuel w st sz = Inr (k, w')"
  shows "ring_ok N w'"
proof -
  obtain sockstream where ss: "streams w st = Some sockstream"
    using assms(4) by (cases "streams w st") (simp_all add: i_socket_read_def)
  obtain r w1 where l: "i_socket_lookup w (socket sockstream) = (r, w1)"
    by (cases "i_socket_lookup w (socket sockstream)")
  have f1: "ring_frame w w1"
    using ring_frame_lookup [OF ring_frame_refl, of w "socket sockstream"] l by simp
  have ok1: "ring_ok N w1" using assms(3) f1 ring_ok_frame by blast
  show ?thesis
  proof (cases r)
    case None
    then show ?thesis using assms(4) ss l ok1 by (simp add: i_socket_read_def)
  next
    case (Some p)
    then obtain s where s: "socket_map w1 p = Some s"
      using assms(4) ss l by (cases "socket_map w1 p") (simp_all add: i_socket_read_def)
    show ?thesis
    proof (cases "base s < 0")
      case True
      then show ?thesis using assms(4) ss l Some s ok1 by (simp add: i_socket_read_def)
    next
      case False
      let ?b = "nat (base s)"
      define w2 where "w2 = slot_update ?b (\<lambda>sb. sb\<lparr>last_event := 0\<rparr>) w1"
      have ok2: "ring_ok N w2" using ok1 by (simp add: w2_def ring_ok_def)
      have okd: "ring_ok N (socket_destroy w2 x)" for x
        using ok2 ring_ok_frame ring_frame_destroy ring_frame_refl by blast
      define polled where "polled = (SOCKETFLAG_POLLED \<in> flags (slot w1 ?b))"
      define blocking where "blocking = (SOCKETFLAG_BLOCKING \<in> flags (slot w1 ?b))"
      show ?thesis
      proof (cases "(state (slot w2 ?b) \<noteq> SOCKETSTATE_CONNECTED
                       \<and> state (slot w2 ?b) \<noteq> SOCKETSTATE_DISCONNECTED) \<or> sz = 0")
        case True
        then have "w' = socket_destroy w2 (socket sockstream)"
          using assms(4) ss l Some s False
          by (auto simp add: i_socket_read_def Let_def w2_def split: if_splits)
        then show ?thesis using okd by simp
      next
        case run: False
        then have unf: "i_socket_read E fuel w st sz =
               bind_fault (socket_read_loop fuel E w2 p blocking polled sz 0 0)
                              (\<lambda>(was_read, w3).
                                 bind_fault
                                   (if was_read < sz
                                    then bind_fault (i_socket_poll_state E w3 ?b)
                                           (\<lambda>(st, w4). Inr w4)
                                    else Inr w3)
                                   (\<lambda>w5. Inr (was_read,
                                          socket_destroy
                                            (sock_update p
                                               (\<lambda>s. s\<lparr>bytes_read :=
                                                  (bytes_read s + was_read) mod 2 ^ 64\<rparr>) w5)
                                            (socket sockstream))))"
          using ss l Some s False
          by (auto simp add: i_socket_read_def Let_def w2_def polled_def blocking_def)
        obtain wr w3 where lp: "socket_read_loop fuel E w2 p blocking polled sz 0 0 = Inr (wr, w3)"
          using assms(4) unf
          by (cases "socket_read_loop fuel E w2 p blocking polled sz 0 0") auto
        have ok3: "ring_ok N w3" using read_loop_ring [OF assms(1,2) ok2 lp] .
        obtain w5 where w5: "(if wr < sz
                                    then bind_fault (i_socket_poll_state E w3 ?b)
                                           (\<lambda>(st, w4). Inr w4)
                                    else Inr w3) = Inr w5"
          and w': "w' = socket_destroy
                                            (sock_update p
                                               (\<lambda>s. s\<lparr>bytes_read :=
                                                  (bytes_read s + wr) mod 2 ^ 64\<rparr>) w5)
                                            (socket sockstream)"
          using assms(4) unf lp
          by (cases "(if wr < sz
                                    then bind_fault (i_socket_poll_state E w3 ?b)
                                           (\<lambda>(st, w4). Inr w4)
                                    else Inr w3)") auto
        have f5: "ring_frame w3 w5"
        proof (cases "wr < sz")
          case True
          then obtain stt where "i_socket_poll_state E w3 ?b = Inr (stt, w5)"
            using w5 by (cases "i_socket_poll_state E w3 ?b") auto
          then show ?thesis using ring_frame_poll_state [OF ring_frame_refl] by blast
        next
          case False
          then show ?thesis using w5 by (simp add: ring_intros)
        qed
        have "ring_frame w3 w'"
          unfolding w' using f5 by (auto intro!: ring_intros)
        then show ?thesis using ok3 ring_ok_frame by blast
      qed
    qed
  qed
qed

lemma run_reads_ring:
  "BUILD_SIZE_SOCKET_READBUFFER E = N \<Longrightarrow> N < 2 ^ 32 \<Longrightarrow> ring_ok N w
     \<Longrightarrow> run_reads E fuel w ops = Inr w' \<Longrightarrow> ring_ok N w'"
proof (induction ops arbitrary: w)
  case Nil
  then show ?case by simp
next
  case (Cons op ops)
  show ?case
  proof (cases op)
    case (BufferedRead p n)
    then obtain w1 where b: "i_tcp_socket_buffer_read E w p n = Inr w1"
      and r: "run_reads E fuel w1 ops = Inr w'"
      using Cons.prems(4) by (cases "i_tcp_socket_buffer_read E w p n") auto
    have "ring_ok N w1" using buffer_read_ring [OF Cons.prems(1,3) b] .
    then show ?thesis using Cons.IH [OF Cons.prems(1,2) _ r] by blast
  next
    case (StreamRead st n)
    then obtain k w1 where b: "i_socket_read E fuel w st n = Inr (k, w1)"
      and r: "run_reads E fuel w1 ops = Inr w'"
      using Cons.prems(4) by (cases "i_socket_read E fuel w st n") auto
    have "ring_ok N w1" using socket_read_ring [OF Cons.prems(1,2,3) b] .
    then show ?thesis using Cons.IH [OF Cons.prems(1,2) _ r] by blast
  qed
qed

section \<open>Reference counting of the balanced operations\<close>

text \<open>
  Operations that take the record by identifier and release it on every return path leave
  the reference count where it was; constructing a stream adapter keeps the one reference
  that the adapter owns.
\<close>

lemma create_fd_ref:
  assumes "i_socket_create_fd E w p fam = Inr (fdv, w')" and "socket_map w p = Some s"
  shows "\<exists>s'. socket_map w' p = Some s' \<and> ref s' = ref s"
proof -
  obtain b0 w1 where a: "i_socket_allocate_base w p = Inr (b0, w1)"
    using assms(1) by (cases "i_socket_allocate_base w p") (auto simp add: i_socket_create_fd_def)
  define s1 where "s1 = s\<lparr>base := b0\<rparr>"
  have m1: "socket_map w1 = (socket_map w)(p \<mapsto> s1)" and b0: "0 \<le> b0"
    using allocate_base_record [OF a assms(2)] by (simp_all add: s1_def)
  have m1p: "socket_map w1 p = Some s1" using m1 by simp
  have bs1: "0 \<le> base s1" "ref s1 = ref s" "base s1 = b0" using b0 by (simp_all add: s1_def)
  let ?b = "nat b0"
  show ?thesis
  proof (cases "fd (slot w1 ?b) = SOCKET_INVALID")
    case False
    then have "w' = w1"
      using assms(1) a b0 m1p bs1
      by (auto simp add: i_socket_create_fd_def Let_def split: if_splits)
    then show ?thesis using m1p bs1 by simp
  next
    case True
    then obtain w2 where o: "i_tcp_socket_open E w1 p fam = Inr w2"
      using assms(1) a b0 m1p bs1
      by (cases "i_tcp_socket_open E w1 p fam") (auto simp add: i_socket_create_fd_def Let_def split: if_splits)
    have m2: "socket_map w2 = socket_map w1"
      using open_map [OF m1p bs1(1) o] .
    define s3 where "s3 = s1\<lparr>family := fam\<rparr>"
    define w3 where "w3 = sock_update p (\<lambda>s. s\<lparr>family := fam\<rparr>) w2"
    have m3: "socket_map w3 p = Some s3" and bs3: "0 \<le> base s3" "base s3 = b0" "ref s3 = ref s"
      using m2 m1p bs1 by (simp_all add: w3_def s3_def sock_update_map)
    show ?thesis
      using assms(1) a b0 m1p bs1 True o m3 bs3 m2
      apply (simp add: i_socket_create_fd_def Let_def w3_def [symmetric] split: if_splits)
      apply (simp add: set_blocking_has [OF m3 bs3(1)] set_reuse_address_has set_reuse_port_has)
       apply auto
      done
  qed
qed

lemma socket_bind_balanced:
  assumes "socket_map w ident = Some s" and "0 < ref s"
    and "socket_bind E w ident address = Inr (r, w')"
  shows "\<exists>s'. socket_map w' ident = Some s' \<and> ref s' = ref s"
proof -
  let ?w1 = "w\<lparr>socket_map := (socket_map w)(ident \<mapsto> s\<lparr>ref := ref s + 1\<rparr>)\<rparr>"
  have l: "i_socket_lookup w ident = (Some ident, ?w1)"
    using assms(1) by (rule lookup_Some)
  obtain fdv w2 where c: "i_socket_create_fd E ?w1 ident (addr_family address) = Inr (fdv, w2)"
    using assms(3) l
    by (cases "i_socket_create_fd E ?w1 ident (addr_family address)")
       (auto simp add: socket_bind_def)
  have "socket_map ?w1 ident = Some (s\<lparr>ref := ref s + 1\<rparr>)" by simp
  from create_fd_ref [OF c this]
  obtain s2 where m2: "socket_map w2 ident = Some s2" and r2: "ref s2 = ref s + 1" by auto
  have live: "ref x = ref s + 1 \<Longrightarrow> socket_map W ident = Some x \<Longrightarrow>
          \<exists>s'. socket_map (socket_destroy W ident) ident = Some s' \<and> ref s' = ref s" for x W
    using assms(2) by (simp add: destroy_live)
  have "(\<exists>x W. ref x = ref s + 1 \<and> socket_map W ident = Some x \<and> w' = socket_destroy W ident)"
  proof (cases "fdv = SOCKET_INVALID")
    case True
    then have "w' = socket_destroy w2 ident"
      using assms(3) l c by (simp add: socket_bind_def)
    then show ?thesis using m2 r2 by blast
  next
    case False
    show ?thesis
    proof (cases "sys_bind E (tick w2) = 0")
      case True
      have mt: "socket_map (next_tick w2) ident = Some s2" using m2 by simp
      obtain w3 where st: "i_socket_store_address_local E (next_tick w2) ident (addr_family address) = Inr w3"
        and w': "w' = socket_destroy w3 ident"
        using assms(3) l c False True
        by (cases "i_socket_store_address_local E (next_tick w2) ident (addr_family address)")
           (auto simp add: socket_bind_def)
      from store_address_local_frame [OF st mt]
      obtain s3 where "socket_map w3 ident = Some s3" "ref s3 = ref s2" by auto
      then show ?thesis using w' r2 by auto
    next
      case nb: False
      then have "w' = socket_destroy (next_tick w2) ident"
        using assms(3) l c False by (simp add: socket_bind_def)
      moreover have "socket_map (next_tick w2) ident = Some s2" using m2 by simp
      ultimately show ?thesis using r2 by blast
    qed
  qed
  then show ?thesis using live by blast
qed

lemma socket_set_blocking_balanced:
  assumes "socket_map w ident = Some s" and "0 < ref s"
    and "socket_set_blocking w ident block = Inr w'"
  shows "\<exists>s'. socket_map w' ident = Some s' \<and> ref s' = ref s"
proof -
  let ?w1 = "w\<lparr>socket_map := (socket_map w)(ident \<mapsto> s\<lparr>ref := ref s + 1\<rparr>)\<rparr>"
  have l: "i_socket_lookup w ident = (Some ident, ?w1)"
    using assms(1) by (rule lookup_Some)
  have m1: "socket_map ?w1 ident = Some (s\<lparr>ref := ref s + 1\<rparr>)" by simp
  obtain b w2 where a: "i_socket_allocate_base ?w1 ident = Inr (b, w2)"
    using assms(3) l
    by (cases "i_socket_allocate_base ?w1 ident")
       (auto simp add: socket_set_blocking_def i_socket_set_blocking_def)
  have m2: "socket_map w2 ident = Some (s\<lparr>ref := ref s + 1, base := b\<rparr>)"
    using allocate_base_record [OF a m1] by simp
  have "w' = socket_destroy w2 ident
      \<or> w' = socket_destroy (slot_update (nat b) (set_flag SOCKETFLAG_BLOCKING block) w2) ident"
    using assms(3) l a
    by (auto simp add: socket_set_blocking_def i_socket_set_blocking_def split: if_splits)
  moreover have "socket_map (slot_update (nat b) (set_flag SOCKETFLAG_BLOCKING block) w2) ident
      = Some (s\<lparr>ref := ref s + 1, base := b\<rparr>)"
    using m2 by simp
  ultimately have "\<exists>W. socket_map W ident = Some (s\<lparr>ref := ref s + 1, base := b\<rparr>) \<and> w' = socket_destroy W ident"
    using m2 by blast
  then show ?thesis using assms(2) by (auto simp add: destroy_live)
qed

lemma socket_blocking_balanced:
  assumes "socket_map w ident = Some s" and "0 < ref s"
  shows "\<exists>s'. socket_map (snd (socket_blocking w ident)) ident = Some s' \<and> ref s' = ref s"
  using assms by (simp add: socket_blocking_def lookup_Some destroy_live)

lemma socket_stream_keeps_reference:
  assumes "socket_map w ident = Some s" and "stream s = None"
  shows "\<exists>w'. socket_stream w ident = (Some (streams_fresh w), w')
           \<and> streams w' (streams_fresh w) = Some \<lparr>socket = ident\<rparr>
           \<and> socket_map w' ident = Some (s\<lparr>ref := ref s + 1, stream := Some (streams_fresh w)\<rparr>)"
  using assms
  by (simp add: socket_stream_def lookup_Some i_socket_stream_allocate_def Let_def sock_update_def)

section \<open>Ring invariant of fresh states\<close>

lemma ring_ok_create:
  assumes "0 < N" and "ring_ok N w"
  shows "ring_ok N (snd (tcp_socket_create w))"
  using assms
  by (auto simp add: tcp_socket_create_def i_tcp_socket_allocate_def i_socket_allocate_def
        objectmap_reserve_def ring_ok_def ring_inv_def split: if_splits option.splits)

lemma ring_ok_initialize: "ring_ok N (i_socket_initialize m)"
  by (simp add: ring_ok_def i_socket_initialize_def)

lemmas eval_defs =
  one_socket_def fresh_socket_def bound_socket_def loopback_def i_socket_initialize_def
  zero_slot_def quiet_kernel_def i_socket_lookup_def sock_update_def slot_update_def slot_def
  next_tick_def socket_free_def socket_destroy_def i_socket_close_def i_socket_deallocate_def
  i_socket_allocate_base_def set_flag_def SOCKET_INVALID_def EAGAIN_def EINPROGRESS_def Let_def
  connecting_socket_def connecting_world_def select_error_def select_writable_def
  probe_fails_def streamed_socket_def streamed_world_def listener_world_def orphan_world_def
  client_world_def in_progress_def closed_with_data_def disconnected_socket_def
  disconnected_world_def pending_bytes_def connected_socket_def connected_world_def
  receiving_def

section \<open>Module initialization\<close>

text \<open>
  C8, as the code has it. For every \<open>max_sockets\<close>, initialization sizes the handle
  registry to \<open>max_sockets + 256\<close> when \<open>max_sockets > 256\<close> and to \<open>max_sockets + 8\<close>
  otherwise (a 32-bit sum), allocates a slot table of exactly \<open>max_sockets\<close> zeroed slots
  and zeroes the slot cursor.
\<close>

theorem socket_initialize_sizes:
  "socket_map_size (i_socket_initialize m)
     = (unat m + (if 256 < unat m then 256 else 8)) mod 2 ^ 32
   \<and> length (socket_base (i_socket_initialize m)) = unat m
   \<and> socket_base (i_socket_initialize m) = replicate (unat m) zero_slot
   \<and> socket_base_next (i_socket_initialize m) = 0"
proof -
  have "(256 < m) = (256 < unat m)"
    by (simp add: word_less_nat_alt)
  then show ?thesis
    by (simp add: i_socket_initialize_def unat_word_ariths)
qed

text \<open>
  C8 as stated fails: for 100 sockets the registry capacity is 108, not
  \<open>100 + min 100 256 = 200\<close>.
\<close>

theorem socket_initialize_capacity_counterexample:
  "socket_map_size (i_socket_initialize 100) \<noteq> 100 + min 100 256"
  by (simp add: i_socket_initialize_def)

section \<open>Close\<close>

text \<open>
  C7. Closing a socket is idempotent: a second \<open>socket_close\<close> on the same identifier
  leaves the whole state as the first one left it. After the close of a live record that
  holds no slot or a slot of the table, the record has \<open>base = -1\<close>, no local and no remote
  address and its reference count is unchanged, and the slot it held is released with its
  descriptor, state and flags reset.
\<close>

theorem socket_close_idempotent:
  "socket_close (socket_close w ident) ident = socket_close w ident \<and>
   (socket_map w ident = Some s \<and> ref s \<noteq> 0
     \<and> (base s = - 1 \<or> (0 \<le> base s \<and> nat (base s) < length (socket_base w)))
    \<longrightarrow> (\<exists>s'. socket_map (socket_close w ident) ident = Some s'
              \<and> base s' = - 1 \<and> address_local s' = None \<and> address_remote s' = None
              \<and> ref s' = ref s)
        \<and> (0 \<le> base s \<longrightarrow>
              slot (socket_close w ident) (nat (base s))
                = (slot w (nat (base s)))\<lparr>object := 0, fd := SOCKET_INVALID,
                     state := SOCKETSTATE_NOTCONNECTED, flags := {}\<rparr>))"
proof (intro conjI impI)
  show "socket_close (socket_close w ident) ident = socket_close w ident"
    by (rule socket_close_twice)
next
  assume a: "socket_map w ident = Some s \<and> ref s \<noteq> 0
     \<and> (base s = - 1 \<or> (0 \<le> base s \<and> nat (base s) < length (socket_base w)))"
  then show "\<exists>s'. socket_map (socket_close w ident) ident = Some s'
              \<and> base s' = - 1 \<and> address_local s' = None \<and> address_remote s' = None
              \<and> ref s' = ref s"
    by (auto simp add: socket_close_live close_Some)
next
  assume a: "socket_map w ident = Some s \<and> ref s \<noteq> 0
     \<and> (base s = - 1 \<or> (0 \<le> base s \<and> nat (base s) < length (socket_base w)))"
    and b: "0 \<le> base s"
  then show "slot (socket_close w ident) (nat (base s))
                = (slot w (nat (base s)))\<lparr>object := 0, fd := SOCKET_INVALID,
                     state := SOCKETSTATE_NOTCONNECTED, flags := {}\<rparr>"
    by (auto simp add: socket_close_live close_Some slot_def)
qed


theorem socket_close_idempotent_witness:
  "(socket_map listener_world 1 = Some bound_socket \<and> ref bound_socket \<noteq> 0
      \<and> (base bound_socket = - 1
          \<or> (0 \<le> base bound_socket
              \<and> nat (base bound_socket) < length (socket_base listener_world))))
   \<and> socket_close (socket_close listener_world 1) 1 = socket_close listener_world 1
   \<and> (\<exists>s'. socket_map (socket_close listener_world 1) 1 = Some s' \<and> base s' = - 1
            \<and> address_local s' = None \<and> address_remote s' = None
            \<and> ref s' = ref bound_socket)
   \<and> slot (socket_close listener_world 1) (nat (base bound_socket))
       = (slot listener_world (nat (base bound_socket)))
           \<lparr>object := 0, fd := SOCKET_INVALID, state := SOCKETSTATE_NOTCONNECTED, flags := {}\<rparr>"
proof -
  have h: "socket_map listener_world 1 = Some bound_socket \<and> ref bound_socket \<noteq> 0
      \<and> (base bound_socket = - 1
          \<or> (0 \<le> base bound_socket
              \<and> nat (base bound_socket) < length (socket_base listener_world)))"
    by (simp add: listener_world_def eval_defs)
  have b: "0 \<le> base bound_socket"
    by (simp add: eval_defs)
  show ?thesis
    using h b socket_close_idempotent [of listener_world 1 bound_socket] by blast
qed

section \<open>Accept\<close>

text \<open>
  C1, on the code. For every call of \<^verbatim>\<open>tcp_socket_accept\<close> that returns, on a live,
  bound, listening socket whose slot carries its identifier: the listener's slot is still
  in state LISTENING, and its flags are the flags it had intersected with
  \<open>{CONNECTION_PENDING}\<close>. The statement
  \<^verbatim>\<open>sockbase->flags &= SOCKETFLAG_CONNECTION_PENDING\<close> keeps that one flag and clears
  every other, on the failure paths and on the success path alike.
\<close>

theorem accept_listener_flags:
  assumes "socket_map w ident = Some s" and "0 < ref s"
    and "base s = int b" and "b < length (socket_base w)"
    and "object (slot w b) \<noteq> 0"
    and "state (slot w b) = SOCKETSTATE_LISTENING" and "fd (slot w b) \<noteq> SOCKET_INVALID"
    and "address_local s = Some al"
    and "socket_map w (socket_map_fresh w) = None"
    and "tcp_socket_accept E w ident timeoutms = Inr (r, w')"
  shows "flags (slot w' b) = flags (slot w b) \<inter> {SOCKETFLAG_CONNECTION_PENDING}
       \<and> state (slot w' b) = SOCKETSTATE_LISTENING"
proof -
  define s1 where "s1 = s\<lparr>ref := ref s + 1\<rparr>"
  define w1 where "w1 = w\<lparr>socket_map := (socket_map w)(ident \<mapsto> s1)\<rparr>"
  have l: "i_socket_lookup w ident = (Some ident, w1)"
    using assms(1) by (simp add: lookup_Some w1_def s1_def)
  have m1: "socket_map w1 ident = Some s1" and b1: "0 \<le> base s1" "nat (base s1) = b"
    and r1: "ref s1 \<noteq> 1"
    using assms(2,3) by (simp_all add: w1_def s1_def)
  have sb1: "socket_base w1 = socket_base w" and fr1: "socket_map_fresh w1 = socket_map_fresh w"
    by (simp_all add: w1_def)
  define blocking where "blocking = (SOCKETFLAG_BLOCKING \<in> flags (slot w b))"
  define w2 where "w2 = (if timeoutms > 0 \<and> blocking
                         then slot_update b (set_flag SOCKETFLAG_BLOCKING False) w1 else w1)"
  have sb2: "(if timeoutms > 0 \<and> blocking then i_socket_set_blocking w1 ident False else Inr w1)
               = Inr w2"
    using set_blocking_has [OF m1 b1(1)] b1(2) by (simp add: w2_def)
  have m2: "socket_map w2 ident = Some s1" by (simp add: w2_def m1)
  obtain fdv peer w3 where ao: "accept_outcome E w2 timeoutms = (fdv, peer, w3)"
    by (cases "accept_outcome E w2 timeoutms")
  note f3 = accept_outcome_frame [OF ao]
  have m3: "socket_map w3 ident = Some s1" using f3 m2 by simp
  define w4 where "w4 = (if timeoutms > 0 \<and> blocking
                         then slot_update b (set_flag SOCKETFLAG_BLOCKING True) w3 else w3)"
  have sb4: "(if timeoutms > 0 \<and> blocking then i_socket_set_blocking w3 ident True else Inr w3)
               = Inr w4"
    using set_blocking_has [OF m3 b1(1)] b1(2) by (simp add: w4_def)
  define w5 where "w5 = slot_update b
                          (\<lambda>sb. sb\<lparr>flags := flags sb \<inter> {SOCKETFLAG_CONNECTION_PENDING}\<rparr>) w4"
  have m5: "socket_map w5 ident = Some s1"
    using m3 by (simp add: w5_def w4_def)
  have len5: "b < length (socket_base w5)"
    using assms(4) f3 sb1 by (simp add: w5_def w4_def w2_def)
  have sl5: "slot w5 b = (slot w b)\<lparr>flags := flags (slot w b) \<inter> {SOCKETFLAG_CONNECTION_PENDING}\<rparr>"
    using assms(4) f3 sb1
    by (auto simp add: w5_def w4_def w2_def slot_def slot_update_def set_flag_def blocking_def)
  have fr5: "socket_map w5 (socket_map_fresh w5) = None"
    using assms(9) assms(1) f3 fr1
    by (auto simp add: w5_def w4_def w2_def w1_def)
  have o5: "object (slot w5 b) \<noteq> 0" using sl5 assms(5) by simp
  have unf: "tcp_socket_accept E w ident timeoutms =
               (if fdv < 0 then Inr (0, socket_free w5 ident)
                else accept_install E w5 ident al fdv peer)"
  proof -
    have a1: "address_local s1 = Some al" "base s1 = int b" "slot w1 b = slot w b"
      using assms(3,8) by (simp_all add: s1_def w1_def slot_def)
    show ?thesis
      unfolding w5_def
      using l m1 a1 assms(6,7) sb2 [unfolded blocking_def] ao sb4 [unfolded blocking_def]
      by (simp add: tcp_socket_accept_def Let_def)
  qed
  have "slot w' b = slot w5 b"
  proof (cases "fdv < 0")
    case True
    then have "w' = socket_free w5 ident" using assms(10) unf by simp
    then show ?thesis using free_keeps_slot [OF m5 r1] by simp
  next
    case False
    then have "accept_install E w5 ident al fdv peer = Inr (r, w')"
      using assms(10) unf by simp
    then show ?thesis using accept_install_slot [OF m5 r1 o5 len5 fr5] by blast
  qed
  then show ?thesis using sl5 assms(6) by simp
qed

theorem accept_listener_flags_witness:
  "(socket_map listener_world 1 = Some bound_socket \<and> 0 < ref bound_socket
      \<and> base bound_socket = int 0 \<and> 0 < length (socket_base listener_world)
      \<and> object (slot listener_world 0) \<noteq> 0
      \<and> state (slot listener_world 0) = SOCKETSTATE_LISTENING
      \<and> fd (slot listener_world 0) \<noteq> SOCKET_INVALID
      \<and> address_local bound_socket = Some loopback
      \<and> socket_map listener_world (socket_map_fresh listener_world) = None)
   \<and> (\<exists>w'. tcp_socket_accept quiet_kernel listener_world 1 0 = Inr (0, w')
          \<and> flags (slot w' 0) = {}
          \<and> state (slot w' 0) = SOCKETSTATE_LISTENING)
   \<and> flags (slot listener_world 0) - {SOCKETFLAG_CONNECTION_PENDING}
       = {SOCKETFLAG_BLOCKING, SOCKETFLAG_REUSE_ADDR}"
proof -
  have h: "socket_map listener_world 1 = Some bound_socket" "0 < ref bound_socket"
    "base bound_socket = int 0" "0 < length (socket_base listener_world)"
    "object (slot listener_world 0) \<noteq> 0"
    "state (slot listener_world 0) = SOCKETSTATE_LISTENING"
    "fd (slot listener_world 0) \<noteq> SOCKET_INVALID"
    "address_local bound_socket = Some loopback"
    "socket_map listener_world (socket_map_fresh listener_world) = None"
    by (simp_all add: eval_defs)
  have f: "flags (slot listener_world 0) = {SOCKETFLAG_BLOCKING, SOCKETFLAG_REUSE_ADDR}"
    by (simp add: eval_defs)
  obtain w' where r: "tcp_socket_accept quiet_kernel listener_world 1 0 = Inr (0, w')"
    by (simp add: tcp_socket_accept_def accept_outcome_def eval_defs)
  from accept_listener_flags [OF h r]
  have "flags (slot w' 0) = {} \<and> state (slot w' 0) = SOCKETSTATE_LISTENING"
    using f by simp
  then show ?thesis
    using h r f by auto
qed

section \<open>Reference counting\<close>

text \<open>
  C2, on the code. \<^verbatim>\<open>socket_set_multicast_group\<close> on an identifier that resolves leaves
  the record's reference count one higher than it found it, whatever it returns: none of
  its exits releases the reference taken by the lookup.
\<close>

theorem multicast_group_leaks_reference:
  assumes "socket_map w ident = Some s"
    and "socket_set_multicast_group E w ident address allow_loopback = Inr (r, w')"
  shows "\<exists>s'. socket_map w' ident = Some s' \<and> ref s' = ref s + 1"
proof -
  let ?w1 = "w\<lparr>socket_map := (socket_map w)(ident \<mapsto> s\<lparr>ref := ref s + 1\<rparr>)\<rparr>"
  have l: "i_socket_lookup w ident = (Some ident, ?w1)"
    using assms(1) by (rule lookup_Some)
  have m1: "socket_map ?w1 ident = Some (s\<lparr>ref := ref s + 1\<rparr>)"
    by simp
  obtain b w2 where a: "i_socket_allocate_base ?w1 ident = Inr (b, w2)"
    using assms(2) l
    by (cases "i_socket_allocate_base ?w1 ident") (auto simp add: socket_set_multicast_group_def)
  have m2: "socket_map w2 = (socket_map ?w1)(ident \<mapsto> s\<lparr>ref := ref s + 1, base := b\<rparr>)"
    using allocate_base_record [OF a m1] by simp
  have "socket_map w' = socket_map w2"
    using assms(2) l a
    by (auto simp add: socket_set_multicast_group_def split: if_splits)
  then show ?thesis using m2 by simp
qed

theorem multicast_group_leaks_reference_witness:
  "socket_map listener_world 1 = Some bound_socket
   \<and> (\<exists>w'. socket_set_multicast_group quiet_kernel listener_world 1 loopback False
              = Inr (True, w')
          \<and> (\<exists>s'. socket_map w' 1 = Some s' \<and> ref s' = ref bound_socket + 1))"
proof -
  have h: "socket_map listener_world 1 = Some bound_socket"
    by (simp add: eval_defs)
  obtain w' where r: "socket_set_multicast_group quiet_kernel listener_world 1 loopback False
                        = Inr (True, w')"
    by (simp add: socket_set_multicast_group_def eval_defs)
  show ?thesis
    using h r multicast_group_leaks_reference [OF h r] by blast
qed

section \<open>Connect\<close>

text \<open>
  C6. A connect call with \<open>timeout_ms = 0\<close> on a live socket: the descriptor exists or is
  created, the slot is in state NOT_CONNECTED, and the kernel's \<^verbatim>\<open>connect\<close> fails with
  \<^verbatim>\<open>EINPROGRESS\<close>. The call returns success and the slot is left in state CONNECTING; the
  record keeps its slot and its reference count and has the address as remote address.
\<close>

theorem socket_connect_in_progress:
  assumes "socket_map w ident = Some s" and "0 < ref s"
    and "i_socket_create_fd E (snd (i_socket_lookup w ident)) ident (addr_family address)
           = Inr (fdv, w2)"
    and "fdv \<noteq> SOCKET_INVALID"
    and "socket_map w2 ident = Some s2" and "nat (base s2) < length (socket_base w2)"
    and "state (slot w2 (nat (base s2))) = SOCKETSTATE_NOTCONNECTED"
    and "sys_connect E (tick w2) \<noteq> 0" and "sys_errno E (tick w2 + 1) = EINPROGRESS"
  shows "\<exists>w'. socket_connect E w ident address 0 = Inr (True, w')
           \<and> state (slot w' (nat (base s2))) = SOCKETSTATE_CONNECTING
           \<and> (\<exists>s'. socket_map w' ident = Some s' \<and> base s' = base s2 \<and> ref s' = ref s
                    \<and> address_remote s' = Some address)"
proof -
  let ?w1 = "w\<lparr>socket_map := (socket_map w)(ident \<mapsto> s\<lparr>ref := ref s + 1\<rparr>)\<rparr>"
  have l: "i_socket_lookup w ident = (Some ident, ?w1)"
    using assms(1) by (rule lookup_Some)
  have c: "i_socket_create_fd E ?w1 ident (addr_family address) = Inr (fdv, w2)"
    using assms(3) l by simp
  have "socket_map ?w1 ident = Some (s\<lparr>ref := ref s + 1\<rparr>)" by simp
  from create_fd_record [OF c assms(4) this] assms(5)
  have s2: "ref s2 = ref s + 1" "0 \<le> base s2" by auto
  let ?b = "nat (base s2)"
  define w3 where "w3 = slot_update ?b
                          (\<lambda>sb. sb\<lparr>flags := flags sb
                                      - {SOCKETFLAG_CONNECTION_PENDING,
                                         SOCKETFLAG_ERROR_PENDING,
                                         SOCKETFLAG_HANGUP_PENDING},
                                    last_event := 0\<rparr>) w2"
  have m3: "socket_map w3 ident = Some s2" and t3: "tick w3 = tick w2"
    and len3: "length (socket_base w3) = length (socket_base w2)"
    using assms(5) by (simp_all add: w3_def)
  define w4 where "w4 = slot_update ?b (\<lambda>sb. sb\<lparr>state := SOCKETSTATE_CONNECTING\<rparr>)
                          (next_tick (next_tick w3))"
  have co: "connect_outcome E w3 ?b 0 = (False, EINPROGRESS, w4)"
    using assms(8,9) t3 by (simp add: connect_outcome_def Let_def w4_def)
  have m4: "socket_map w4 ident = Some s2" and st4: "state (slot w4 ?b) = SOCKETSTATE_CONNECTING"
    using m3 len3 assms(6) by (simp_all add: w4_def slot_slot_update)
  define w5 where "w5 = sock_update ident (\<lambda>s. s\<lparr>address_remote := Some address\<rparr>) w4"
  define s5 where "s5 = s2\<lparr>address_remote := Some address\<rparr>"
  have m5: "socket_map w5 ident = Some s5" and sb5: "socket_base w5 = socket_base w4"
    using m4 by (simp_all add: w5_def s5_def sock_update_map)
  have "\<exists>w6. i_tcp_socket_connect E w3 ident address 0 = Inr (0, w6)
           \<and> socket_base w6 = socket_base w4
           \<and> (\<exists>s6. socket_map w6 ident = Some s6 \<and> ref s6 = ref s2 \<and> base s6 = base s2)"
  proof (cases "address_local s5 = None")
    case False
    then show ?thesis
      using m3 s2 co m5 sb5
      by (auto simp add: i_tcp_socket_connect_def Let_def w5_def [symmetric] s5_def)
  next
    case True
    show ?thesis
    proof (cases "i_socket_store_address_local E w5 ident (addr_family address)")
      case (Inl f)
      then show ?thesis using m5 s2 by (simp add: i_socket_store_address_local_def s5_def split: if_splits)
    next
      case (Inr w6)
      from store_address_local_frame [OF Inr m5] show ?thesis
        using m3 s2 co m5 sb5 True Inr
        by (auto simp add: i_tcp_socket_connect_def Let_def w5_def [symmetric] s5_def)
    qed
  qed
  then obtain w6 s6 where tc: "i_tcp_socket_connect E w3 ident address 0 = Inr (0, w6)"
    and sb6: "socket_base w6 = socket_base w4"
    and m6: "socket_map w6 ident = Some s6" "ref s6 = ref s2" "base s6 = base s2"
    by blast
  define s7 where "s7 = s6\<lparr>address_remote := Some address\<rparr>"
  define w7 where "w7 = sock_update ident (\<lambda>s. s\<lparr>address_remote := Some address\<rparr>) w6"
  have m7: "socket_map w7 ident = Some s7" "ref s7 \<noteq> 1" and sb7: "socket_base w7 = socket_base w4"
    using m6 s2 assms(2) sb6 by (simp_all add: w7_def s7_def sock_update_map)
  have d: "socket_destroy w7 ident = w7\<lparr>socket_map := (socket_map w7)(ident \<mapsto> s7\<lparr>ref := ref s7 - 1\<rparr>)\<rparr>"
    using m7 by (rule destroy_live)
  have "socket_connect E w ident address 0 = Inr (True, socket_destroy w7 ident)"
    using l c assms(4,5,7) tc
    by (simp add: socket_connect_def Let_def w3_def [symmetric] w7_def [symmetric])
  moreover have "state (slot (socket_destroy w7 ident) ?b) = SOCKETSTATE_CONNECTING"
    using d sb7 st4 by (simp add: slot_def)
  moreover have "\<exists>s'. socket_map (socket_destroy w7 ident) ident = Some s' \<and> base s' = base s2
                    \<and> ref s' = ref s \<and> address_remote s' = Some address"
    using d m6 s2 by (simp add: s7_def)
  ultimately show ?thesis by blast
qed

theorem socket_connect_in_progress_witness:
  "socket_map client_world 1 = Some fresh_socket \<and> 0 < ref fresh_socket
   \<and> (\<exists>w2. i_socket_create_fd in_progress (snd (i_socket_lookup client_world 1)) 1
               (addr_family loopback) = Inr (3, w2)
          \<and> 3 \<noteq> SOCKET_INVALID
          \<and> socket_map w2 1 = Some (fresh_socket\<lparr>ref := 2, base := 1\<rparr>)
          \<and> nat (base (fresh_socket\<lparr>ref := 2, base := 1\<rparr>)) < length (socket_base w2)
          \<and> state (slot w2 (nat (base (fresh_socket\<lparr>ref := 2, base := 1\<rparr>))))
              = SOCKETSTATE_NOTCONNECTED
          \<and> sys_connect in_progress (tick w2) \<noteq> 0
          \<and> sys_errno in_progress (tick w2 + 1) = EINPROGRESS)
   \<and> (\<exists>w'. socket_connect in_progress client_world 1 loopback 0 = Inr (True, w')
          \<and> state (slot w' 1) = SOCKETSTATE_CONNECTING)"
proof -
  let ?s2 = "fresh_socket\<lparr>ref := 2, base := 1\<rparr>"
  have h: "socket_map client_world 1 = Some fresh_socket" "0 < ref fresh_socket"
    by (simp_all add: eval_defs)
  have "\<exists>w2. i_socket_create_fd in_progress (snd (i_socket_lookup client_world 1)) 1
               (addr_family loopback) = Inr (3, w2)
          \<and> socket_map w2 1 = Some ?s2 \<and> tick w2 = 1
          \<and> socket_base w2 = [zero_slot, \<lparr>object = 1, fd = 3, flags = {},
                                 state = SOCKETSTATE_NOTCONNECTED, last_event = 0\<rparr>]"
    by (simp add: i_socket_create_fd_def i_tcp_socket_open_def i_socket_set_blocking_def
          i_tcp_socket_set_delay_def i_socket_set_reuse_address_def i_socket_set_reuse_port_def
          socket_base_search.simps wrap32_def eval_defs)
  then obtain w2 where c: "i_socket_create_fd in_progress (snd (i_socket_lookup client_world 1)) 1
               (addr_family loopback) = Inr (3, w2)"
    and m: "socket_map w2 1 = Some ?s2" and t: "tick w2 = 1"
    and sb: "socket_base w2 = [zero_slot, \<lparr>object = 1, fd = 3, flags = {},
                                 state = SOCKETSTATE_NOTCONNECTED, last_event = 0\<rparr>]"
    by blast
  have k: "(3::int) \<noteq> SOCKET_INVALID" "nat (base ?s2) < length (socket_base w2)"
    "state (slot w2 (nat (base ?s2))) = SOCKETSTATE_NOTCONNECTED"
    "sys_connect in_progress (tick w2) \<noteq> 0" "sys_errno in_progress (tick w2 + 1) = EINPROGRESS"
    using sb t by (simp_all add: eval_defs)
  have b: "nat (base ?s2) = 1"
    by (simp add: eval_defs)
  from socket_connect_in_progress [OF h c k(1) m k(2,3,4,5)]
  have "\<exists>w'. socket_connect in_progress client_world 1 loopback 0 = Inr (True, w')
          \<and> state (slot w' 1) = SOCKETSTATE_CONNECTING"
    using b by auto
  then show ?thesis
    using h c m k by blast
qed

section \<open>State poller\<close>

text \<open>
  C3, as the code has it. A slot in state CONNECTING is polled with a zero-timeout
  \<^verbatim>\<open>select\<close> on the write and exception sets. The slot belongs to a live record that
  points back at it. If the exception set fires, the record is closed (its slot is released
  and reset, its \<open>base\<close> is -1) and the poll returns NOT_CONNECTED, the state the close
  leaves in the slot. If only the write set fires, the slot's state becomes CONNECTED and
  the poll returns CONNECTED. The reference count of the record is as before in both cases.
\<close>

theorem poll_state_connecting:
  assumes "b < length (socket_base w)"
    and "state (slot w b) = SOCKETSTATE_CONNECTING"
    and "sys_select E (tick w) = (ret, fdwrite, fderr)"
    and "socket_map w (object (slot w b)) = Some s"
    and "sid s = object (slot w b)" and "base s = int b" and "0 < ref s"
  shows "(fderr \<longrightarrow>
            (\<exists>w'. i_socket_poll_state E w b = Inr (SOCKETSTATE_NOTCONNECTED, w')
               \<and> slot w' b = (slot w b)\<lparr>object := 0, fd := SOCKET_INVALID,
                                 state := SOCKETSTATE_NOTCONNECTED, flags := {}\<rparr>
               \<and> (\<exists>s'. socket_map w' (sid s) = Some s' \<and> base s' = - 1 \<and> ref s' = ref s)))
       \<and> (\<not> fderr \<and> fdwrite \<longrightarrow>
            (\<exists>w'. i_socket_poll_state E w b = Inr (SOCKETSTATE_CONNECTED, w')
               \<and> slot w' b = (slot w b)\<lparr>state := SOCKETSTATE_CONNECTED\<rparr>
               \<and> (\<exists>s'. socket_map w' (sid s) = Some s' \<and> base s' = int b \<and> ref s' = ref s)))"
proof (intro conjI impI)
  assume fderr
  then show "\<exists>w'. i_socket_poll_state E w b = Inr (SOCKETSTATE_NOTCONNECTED, w')
               \<and> slot w' b = (slot w b)\<lparr>object := 0, fd := SOCKET_INVALID,
                                 state := SOCKETSTATE_NOTCONNECTED, flags := {}\<rparr>
               \<and> (\<exists>s'. socket_map w' (sid s) = Some s' \<and> base s' = - 1 \<and> ref s' = ref s)"
    using assms
    by (simp add: i_socket_poll_state_def poll_finish_def lookup_Some close_Some destroy_live
          slot_def next_tick_def)
next
  assume a: "\<not> fderr \<and> fdwrite"
  show "\<exists>w'. i_socket_poll_state E w b = Inr (SOCKETSTATE_CONNECTED, w')
               \<and> slot w' b = (slot w b)\<lparr>state := SOCKETSTATE_CONNECTED\<rparr>
               \<and> (\<exists>s'. socket_map w' (sid s) = Some s' \<and> base s' = int b \<and> ref s' = ref s)"
  proof (cases "BUILD_ENABLE_DEBUG_LOG E")
    case True
    then show ?thesis
      using assms a
      by (simp add: i_socket_poll_state_def poll_finish_def poll_debug_lookup_def lookup_Some
            destroy_live slot_def slot_update_def next_tick_def)
  next
    case False
    then show ?thesis
      using assms a
      by (simp add: i_socket_poll_state_def poll_finish_def poll_debug_lookup_def
            slot_def slot_update_def next_tick_def)
  qed
qed


theorem poll_state_connecting_witness:
  "(0 < length (socket_base connecting_world)
      \<and> state (slot connecting_world 0) = SOCKETSTATE_CONNECTING
      \<and> sys_select select_error (tick connecting_world) = (1, True, True)
      \<and> sys_select select_writable (tick connecting_world) = (1, True, False)
      \<and> socket_map connecting_world (object (slot connecting_world 0)) = Some connecting_socket
      \<and> sid connecting_socket = object (slot connecting_world 0)
      \<and> base connecting_socket = int 0 \<and> 0 < ref connecting_socket)
   \<and> (\<exists>w'. i_socket_poll_state select_error connecting_world 0
              = Inr (SOCKETSTATE_NOTCONNECTED, w')
          \<and> fd (slot w' 0) = SOCKET_INVALID)
   \<and> (\<exists>w'. i_socket_poll_state select_writable connecting_world 0
              = Inr (SOCKETSTATE_CONNECTED, w')
          \<and> state (slot w' 0) = SOCKETSTATE_CONNECTED)"
proof -
  have h: "0 < length (socket_base connecting_world)"
    "state (slot connecting_world 0) = SOCKETSTATE_CONNECTING"
    "sys_select select_error (tick connecting_world) = (1, True, True)"
    "sys_select select_writable (tick connecting_world) = (1, True, False)"
    "socket_map connecting_world (object (slot connecting_world 0)) = Some connecting_socket"
    "sid connecting_socket = object (slot connecting_world 0)"
    "base connecting_socket = int 0" "0 < ref connecting_socket"
    by (simp_all add: eval_defs)
  have e: "\<exists>w'. i_socket_poll_state select_error connecting_world 0
              = Inr (SOCKETSTATE_NOTCONNECTED, w')
          \<and> fd (slot w' 0) = SOCKET_INVALID"
    using poll_state_connecting [OF h(1,2,3,5,6,7,8)] by auto
  have c: "\<exists>w'. i_socket_poll_state select_writable connecting_world 0
              = Inr (SOCKETSTATE_CONNECTED, w')
          \<and> state (slot w' 0) = SOCKETSTATE_CONNECTED"
    using poll_state_connecting [OF h(1,2,4,5,6,7,8)] by auto
  show ?thesis
    using h e c by blast
qed

text \<open>
  C3 as stated fails: when the exception set fires on a connecting slot, the poll returns
  NOT_CONNECTED, not DISCONNECTED.
\<close>

theorem poll_state_connecting_counterexample:
  "map_sum id fst (i_socket_poll_state select_error connecting_world 0)
     \<noteq> Inr SOCKETSTATE_DISCONNECTED"
  by (simp add: i_socket_poll_state_def poll_finish_def eval_defs)

text \<open>
  C10, on the code. Whenever a slot in state CONNECTED is polled, its identifier does not
  resolve in the registry and the available-byte probe is negative, the poller falls
  through to the DISCONNECTED case and hands the null record to
  \<^verbatim>\<open>_socket_buffered_in\<close>: the call ends in the failed assertion instead of a state.
\<close>

theorem poll_state_null_record:
  assumes "state (slot w b) = SOCKETSTATE_CONNECTED"
    and "socket_map w (object (slot w b)) = None"
    and "fst (i_socket_available_fd E w (fd (slot w b))) < 0"
  shows "i_socket_poll_state E w b = Inl NullRecord"
proof -
  obtain a w1 where aw: "i_socket_available_fd E w (fd (slot w b)) = (a, w1)"
    by (cases "i_socket_available_fd E w (fd (slot w b))")
  have m: "socket_map w1 = socket_map w" and sb: "socket_base w1 = socket_base w"
    using aw by (auto simp add: i_socket_available_fd_def split: if_splits prod.splits)
  have neg: "a < 0" using assms(3) aw by simp
  show ?thesis
    using assms(1,2) aw neg m sb
    by (cases "b < length (socket_base w)")
       (simp_all add: i_socket_poll_state_def poll_debug_lookup_def poll_disconnected_def
          i_socket_buffered_in_def slot_def slot_update_def list_update_beyond)
qed


theorem poll_state_null_record_witness:
  "(state (slot orphan_world 0) = SOCKETSTATE_CONNECTED
      \<and> socket_map orphan_world (object (slot orphan_world 0)) = None
      \<and> fst (i_socket_available_fd probe_fails orphan_world (fd (slot orphan_world 0))) < 0)
   \<and> i_socket_poll_state probe_fails orphan_world 0 = Inl NullRecord"
proof -
  have h: "state (slot orphan_world 0) = SOCKETSTATE_CONNECTED"
    "socket_map orphan_world (object (slot orphan_world 0)) = None"
    "fst (i_socket_available_fd probe_fails orphan_world (fd (slot orphan_world 0))) < 0"
    by (simp_all add: i_socket_available_fd_def eval_defs)
  show ?thesis
    using h poll_state_null_record [OF h] by blast
qed

section \<open>End of stream\<close>

text \<open>
  C4, as the code has it. \<open>eos()\<close> of a socket stream returns true when the identifier
  does not resolve and when the record holds no slot, whatever its ring holds. For a
  record with a slot it polls the state and returns true if and only if (the polled state
  is not CONNECTED or the descriptor is invalid) and the in-ring is empty and the kernel
  reports no readable bytes for the descriptor (or the poll released the slot). The ring
  cursors are within the buffer, whose size is at most \<open>2^31\<close>, and the kernel's counts
  are those of an \<^verbatim>\<open>int\<close>.
\<close>

theorem socket_eos_value:
  assumes "streams w st = Some sockstream"
  shows "(socket_map w (socket sockstream) = None
            \<longrightarrow> (\<exists>w'. i_socket_eos E w st = Inr (True, w')))
       \<and> (socket_map w (socket sockstream) = Some s \<and> base s < 0
            \<longrightarrow> (\<exists>w'. i_socket_eos E w st = Inr (True, w')))
       \<and> (socket_map w (socket sockstream) = Some s \<and> 0 \<le> base s
             \<and> i_socket_poll_state E (snd (i_socket_lookup w (socket sockstream)))
                  (nat (base s)) = Inr (pst, w2)
             \<and> socket_map w2 (socket sockstream) = Some s2
             \<and> offset_read_in s2 < BUILD_SIZE_SOCKET_READBUFFER E
             \<and> offset_write_in s2 < BUILD_SIZE_SOCKET_READBUFFER E
             \<and> BUILD_SIZE_SOCKET_READBUFFER E \<le> 2 ^ 31
             \<and> (\<forall>t. snd (sys_fionread E t) < 2 ^ 31)
            \<longrightarrow> (\<exists>w'. i_socket_eos E w st
                   = Inr ((pst \<noteq> SOCKETSTATE_CONNECTED
                            \<or> fd (slot w2 (nat (base s))) = SOCKET_INVALID)
                          \<and> offset_read_in s2 = offset_write_in s2
                          \<and> (base s2 < 0
                              \<or> fst (i_socket_available_fd E w2
                                        (fd (slot w2 (nat (base s2))))) \<le> 0), w')))"
proof (intro conjI impI)
  assume "socket_map w (socket sockstream) = None"
  then show "\<exists>w'. i_socket_eos E w st = Inr (True, w')"
    using assms by (simp add: i_socket_eos_def)
next
  assume "socket_map w (socket sockstream) = Some s \<and> base s < 0"
  then show "\<exists>w'. i_socket_eos E w st = Inr (True, w')"
    using assms by (simp add: i_socket_eos_def lookup_Some)
next
  let ?N = "BUILD_SIZE_SOCKET_READBUFFER E"
  let ?id = "socket sockstream"
  assume a: "socket_map w ?id = Some s \<and> 0 \<le> base s
             \<and> i_socket_poll_state E (snd (i_socket_lookup w ?id)) (nat (base s)) = Inr (pst, w2)
             \<and> socket_map w2 ?id = Some s2
             \<and> offset_read_in s2 < ?N \<and> offset_write_in s2 < ?N \<and> ?N \<le> 2 ^ 31
             \<and> (\<forall>t. snd (sys_fionread E t) < 2 ^ 31)"
  let ?w1 = "w\<lparr>socket_map := (socket_map w)(?id \<mapsto> s\<lparr>ref := ref s + 1\<rparr>)\<rparr>"
  have l: "i_socket_lookup w ?id = (Some ?id, ?w1)"
    using a by (simp add: lookup_Some)
  have p: "i_socket_poll_state E ?w1 (nat (base s)) = Inr (pst, w2)"
    using a l by simp
  let ?cond = "pst \<noteq> SOCKETSTATE_CONNECTED \<or> fd (slot w2 (nat (base s))) = SOCKET_INVALID"
  let ?av = "fst (i_socket_available_fd E w2 (fd (slot w2 (nat (base s2)))))"
  have N32: "?N < 2 ^ 32" using a by simp
  define n where "n = (if offset_read_in s2 \<le> offset_write_in s2
                  then offset_write_in s2 - offset_read_in s2
                  else ?N - offset_read_in s2 + offset_write_in s2)"
  have bi: "i_socket_buffered_in E (Some s2) = Inr n"
    using a N32 by (simp add: buffered_in_ring n_def)
  have nN: "n < ?N" using a by (auto simp add: n_def)
  have n0: "n = 0 \<longleftrightarrow> offset_read_in s2 = offset_write_in s2"
    using a by (auto simp add: n_def)
  show "\<exists>w'. i_socket_eos E w st
                   = Inr (?cond \<and> offset_read_in s2 = offset_write_in s2
                          \<and> (base s2 < 0 \<or> ?av \<le> 0), w')"
  proof (cases ?cond)
    case False
    then show ?thesis
      using assms a l p by (auto simp add: i_socket_eos_def)
  next
    case True
    show ?thesis
    proof (cases "base s2 < 0")
      case neg: True
      have "i_socket_available_nonblock_read E w2 ?id = Inr (n, w2)"
        using a neg bi nN N32 by (simp add: i_socket_available_nonblock_read_def u32_id)
      then show ?thesis
        using assms a l p True neg n0 by (auto simp add: i_socket_eos_def)
    next
      case pos: False
      obtain av w3 where av: "i_socket_available_fd E w2 (fd (slot w2 (nat (base s2)))) = (av, w3)"
        by (cases "i_socket_available_fd E w2 (fd (slot w2 (nat (base s2))))")
      have avb: "av < 2 ^ 31"
        using available_fd_bound [of E w2 "fd (slot w2 (nat (base s2)))"] a av by simp
      have sum: "u32 (int n + (if av > 0 then av else 0)) = 0 \<longleftrightarrow> n = 0 \<and> av \<le> 0"
      proof -
        have "0 \<le> int n + (if av > 0 then av else 0)" by simp
        moreover have "int n + (if av > 0 then av else 0) < 2 ^ 32"
          using nN a avb by auto
        ultimately have "u32 (int n + (if av > 0 then av else 0)) = nat (int n + (if av > 0 then av else 0))"
          by (rule u32_id)
        then show ?thesis by auto
      qed
      have "i_socket_available_nonblock_read E w2 ?id
              = Inr (u32 (int n + (if av > 0 then av else 0)), w3)"
        using a pos bi av by (simp add: i_socket_available_nonblock_read_def)
      then show ?thesis
        using assms a l p True pos n0 sum av by (auto simp add: i_socket_eos_def)
    qed
  qed
qed

theorem socket_eos_value_witness:
  "streams disconnected_world 1 = Some \<lparr>socket = 1\<rparr>
   \<and> streams closed_with_data 1 = Some \<lparr>socket = 1\<rparr>
   \<and> (\<exists>w'. i_socket_eos quiet_kernel closed_with_data 1 = Inr (True, w'))
   \<and> (\<exists>w'. i_socket_eos pending_bytes disconnected_world 1 = Inr (False, w'))"
proof -
  let ?w2 = "snd (i_socket_lookup disconnected_world 1)"
  let ?s2 = "disconnected_socket\<lparr>ref := 2\<rparr>"
  have h1: "streams disconnected_world 1 = Some \<lparr>socket = 1\<rparr>"
    and h2: "streams closed_with_data 1 = Some \<lparr>socket = 1\<rparr>"
    by (simp_all add: eval_defs)
  have a: "socket_map closed_with_data (socket \<lparr>socket = 1\<rparr>)
             = Some (fresh_socket\<lparr>offset_write_in := 3, stream := Some 1\<rparr>)
           \<and> base (fresh_socket\<lparr>offset_write_in := 3, stream := Some 1\<rparr>) < 0"
    by (simp add: eval_defs)
  have b: "socket_map disconnected_world (socket \<lparr>socket = 1\<rparr>) = Some disconnected_socket
      \<and> 0 \<le> base disconnected_socket
      \<and> i_socket_poll_state pending_bytes
           (snd (i_socket_lookup disconnected_world (socket \<lparr>socket = 1\<rparr>)))
           (nat (base disconnected_socket)) = Inr (SOCKETSTATE_DISCONNECTED, ?w2)
      \<and> socket_map ?w2 (socket \<lparr>socket = 1\<rparr>) = Some ?s2
      \<and> offset_read_in ?s2 < BUILD_SIZE_SOCKET_READBUFFER pending_bytes
      \<and> offset_write_in ?s2 < BUILD_SIZE_SOCKET_READBUFFER pending_bytes
      \<and> BUILD_SIZE_SOCKET_READBUFFER pending_bytes \<le> 2 ^ 31
      \<and> (\<forall>t. snd (sys_fionread pending_bytes t) < 2 ^ 31)"
    by (simp add: i_socket_poll_state_def eval_defs)
  have v: "fst (i_socket_available_fd pending_bytes ?w2 (fd (slot ?w2 (nat (base ?s2))))) = 4"
    by (simp add: i_socket_available_fd_def eval_defs)
  have "\<exists>w'. i_socket_eos quiet_kernel closed_with_data 1 = Inr (True, w')"
    using socket_eos_value [OF h2,
            where s = "fresh_socket\<lparr>offset_write_in := 3, stream := Some 1\<rparr>"
              and E = quiet_kernel] a
    by blast
  moreover have "\<exists>w'. i_socket_eos pending_bytes disconnected_world 1 = Inr (False, w')"
    using socket_eos_value [OF h1,
            where s = disconnected_socket and E = pending_bytes
              and pst = SOCKETSTATE_DISCONNECTED and ?w2.0 = ?w2 and ?s2.0 = ?s2] b v
    by auto
  ultimately show ?thesis
    using h1 h2 by blast
qed

text \<open>
  C4 as stated fails in both directions: the stream of a closed socket reports the end
  while three bytes are in its ring, and the stream of a disconnected socket with an empty
  ring does not report the end while the kernel has bytes for the descriptor.
\<close>

theorem socket_eos_counterexample:
  "map_sum id fst (i_socket_eos quiet_kernel closed_with_data 1) = Inr True
   \<and> i_socket_buffered_in quiet_kernel (socket_map closed_with_data 1) = Inr 3
   \<and> map_sum id fst (i_socket_eos pending_bytes disconnected_world 1) = Inr False
   \<and> state (slot disconnected_world 0) = SOCKETSTATE_DISCONNECTED
   \<and> i_socket_buffered_in pending_bytes (socket_map disconnected_world 1) = Inr 0"
  by (simp add: i_socket_eos_def i_socket_poll_state_def i_socket_available_nonblock_read_def
        i_socket_available_fd_def i_socket_buffered_in_def usub_def u32_def eval_defs)

section \<open>Stream finalizer\<close>

text \<open>
  C9. The finalizer of a stream adapter whose socket identifier is still set, on a live
  record whose back-pointer is this adapter: the back-pointer is cleared, the adapter's
  identifier is zeroed, and the reference count ends exactly one lower than it was (the
  lookup inside the finalizer and the first release cancel). When that one reference was
  the last, the record is destroyed.
\<close>

theorem stream_finalize_releases_once:
  assumes "streams w st = Some sockstream" and "socket sockstream = ident" and "ident \<noteq> 0"
    and "socket_map w ident = Some s" and "0 < ref s" and "stream s = Some st"
  shows "\<exists>w'. i_socket_stream_finalize w st = Inr w'
           \<and> streams w' st = Some (sockstream\<lparr>socket := 0\<rparr>)
           \<and> (if ref s = 1 then socket_map w' ident = None
               else (\<exists>s'. socket_map w' ident = Some s' \<and> ref s' = ref s - 1
                          \<and> stream s' = None))"
proof -
  define s1 where "s1 = s\<lparr>ref := ref s + 1\<rparr>"
  define w1 where "w1 = w\<lparr>socket_map := (socket_map w)(ident \<mapsto> s1)\<rparr>"
  define s2 where "s2 = s1\<lparr>stream := None\<rparr>"
  define w2 where "w2 = w1\<lparr>socket_map := (socket_map w1)(ident \<mapsto> s2)\<rparr>"
  define s3 where "s3 = s2\<lparr>ref := ref s2 - 1\<rparr>"
  define w3 where "w3 = w2\<lparr>socket_map := (socket_map w2)(ident \<mapsto> s3)\<rparr>"
  define w4 where "w4 = w3\<lparr>streams := (streams w3)(st \<mapsto> sockstream\<lparr>socket := 0\<rparr>)\<rparr>"
  have l1: "i_socket_lookup w ident = (Some ident, w1)"
    using assms(4) by (simp add: lookup_Some w1_def s1_def)
  have m1: "socket_map w1 ident = Some s1"
    by (simp add: w1_def)
  have u2: "sock_update ident (\<lambda>s. s\<lparr>stream := None\<rparr>) w1 = w2"
    using m1 by (simp add: sock_update_Some w2_def s2_def)
  have m2: "socket_map w2 ident = Some s2" and r2: "ref s2 \<noteq> 1"
    using assms(5) by (simp_all add: w2_def s2_def s1_def)
  have d3: "socket_destroy w2 ident = w3"
    using m2 r2 by (simp add: destroy_live w3_def s3_def)
  have m4: "socket_map w4 ident = Some s3" and st4: "streams w4 st = Some (sockstream\<lparr>socket := 0\<rparr>)"
    by (simp_all add: w4_def w3_def)
  have fin: "i_socket_stream_finalize w st = Inr (socket_destroy w4 ident)"
    using assms(1,2,3) l1 u2 d3 by (simp add: i_socket_stream_finalize_def Let_def w4_def)
  have r3: "ref s3 = ref s" and str3: "stream s3 = None" and b3: "socket_map w4 ident = Some s3"
    using m4 by (simp_all add: s3_def s2_def s1_def)
  show ?thesis
  proof (cases "ref s = 1")
    case True
    have "socket_destroy w4 ident
            = i_socket_deallocate (w4\<lparr>socket_map := (socket_map w4)(ident \<mapsto> s3\<lparr>ref := 0\<rparr>)\<rparr>) ident"
      using m4 r3 True by (simp add: destroy_last)
    moreover have "streams (i_socket_deallocate
                      (w4\<lparr>socket_map := (socket_map w4)(ident \<mapsto> s3\<lparr>ref := 0\<rparr>)\<rparr>) ident) st
                     = Some (sockstream\<lparr>socket := 0\<rparr>)"
      using st4 str3 by (simp add: i_socket_deallocate_def close_Some Let_def)
    ultimately show ?thesis
      using fin True by simp
  next
    case False
    have "socket_destroy w4 ident = w4\<lparr>socket_map := (socket_map w4)(ident \<mapsto> s3\<lparr>ref := ref s3 - 1\<rparr>)\<rparr>"
      using m4 r3 False by (simp add: destroy_live)
    then show ?thesis
      using fin False st4 r3 str3 by simp
  qed
qed


theorem stream_finalize_releases_once_witness:
  "(streams streamed_world 1 = Some \<lparr>socket = 1\<rparr> \<and> socket \<lparr>socket = 1\<rparr> = 1 \<and> (1::nat) \<noteq> 0
      \<and> socket_map streamed_world 1 = Some streamed_socket \<and> 0 < ref streamed_socket
      \<and> stream streamed_socket = Some 1)
   \<and> (\<exists>w'. i_socket_stream_finalize streamed_world 1 = Inr w'
          \<and> streams w' 1 = Some \<lparr>socket = 0\<rparr>
          \<and> (\<exists>s'. socket_map w' 1 = Some s' \<and> ref s' = 1 \<and> stream s' = None))"
proof -
  have h: "streams streamed_world 1 = Some \<lparr>socket = 1\<rparr>" "socket \<lparr>socket = 1\<rparr> = 1"
    "(1::nat) \<noteq> 0" "socket_map streamed_world 1 = Some streamed_socket"
    "0 < ref streamed_socket" "stream streamed_socket = Some 1"
    by (simp_all add: eval_defs)
  have r: "ref streamed_socket = 2"
    by (simp add: eval_defs)
  show ?thesis
    using h r stream_finalize_releases_once [OF h] by auto
qed

section \<open>Ring buffer\<close>

text \<open>
  C5. Start from any state in which the cursors of every record are within the read
  buffer of size \<open>N\<close> (a freshly allocated record has both at 0), and run any sequence of
  buffered reads of the TCP transport and reads of the stream adapter that returns. Then
  for every record \<open>offset_read_in\<close> and \<open>offset_write_in\<close> are in \<open>[0, N)\<close>, the buffered
  byte count that \<^verbatim>\<open>_socket_buffered_in\<close> computes is
  \<open>(offset_write_in - offset_read_in) mod N\<close>, and it is strictly less than \<open>N\<close>.
\<close>

theorem ring_cursors_in_range:
  assumes "BUILD_SIZE_SOCKET_READBUFFER E = N" and "N < 2 ^ 32" and "ring_ok N w"
    and "run_reads E fuel w ops = Inr w'" and "socket_map w' p = Some s"
  shows "offset_read_in s < N \<and> offset_write_in s < N
       \<and> (\<exists>n. i_socket_buffered_in E (Some s) = Inr n
               \<and> int n = (int (offset_write_in s) - int (offset_read_in s)) mod int N
               \<and> n < N)"
proof -
  have "ring_ok N w'" using run_reads_ring [OF assms(1,2,3,4)] .
  then have inv: "offset_read_in s < N" "offset_write_in s < N"
    using assms(5) by (auto simp add: ring_ok_def ring_inv_def)
  define n where "n = (if offset_read_in s \<le> offset_write_in s
                  then offset_write_in s - offset_read_in s
                  else N - offset_read_in s + offset_write_in s)"
  have b: "i_socket_buffered_in E (Some s) = Inr n"
    using buffered_in_ring [OF inv assms(2,1)] by (simp add: n_def)
  have nN: "n < N" using inv by (auto simp add: n_def)
  have "int n = (int (offset_write_in s) - int (offset_read_in s)) mod int N"
  proof (cases "offset_read_in s \<le> offset_write_in s")
    case True
    then have "int n = int (offset_write_in s) - int (offset_read_in s)"
      by (simp add: n_def)
    moreover have "0 \<le> int (offset_write_in s) - int (offset_read_in s)"
      "int (offset_write_in s) - int (offset_read_in s) < int N"
      using True inv by auto
    ultimately show ?thesis by simp
  next
    case False
    then have e: "int n = int (offset_write_in s) - int (offset_read_in s) + int N"
      using inv by (simp add: n_def)
    have "(int (offset_write_in s) - int (offset_read_in s)) mod int N
            = (int (offset_write_in s) - int (offset_read_in s) + int N) mod int N"
      by simp
    also have "\<dots> = int (offset_write_in s) - int (offset_read_in s) + int N"
      using False inv by (intro mod_pos_pos_trivial) auto
    finally show ?thesis using e by simp
  qed
  then show ?thesis using inv b nN by blast
qed

theorem ring_cursors_in_range_witness:
  "BUILD_SIZE_SOCKET_READBUFFER receiving = 8 \<and> (8::nat) < 2 ^ 32 \<and> ring_ok 8 connected_world
   \<and> (\<exists>w'. run_reads receiving (Suc (Suc 0)) connected_world
               [BufferedRead 1 0, StreamRead 1 3] = Inr w'
          \<and> (\<exists>s. socket_map w' 1 = Some s \<and> offset_read_in s = 3 \<and> offset_write_in s = 5
                  \<and> i_socket_buffered_in receiving (Some s) = Inr 2))"
proof -
  have h: "BUILD_SIZE_SOCKET_READBUFFER receiving = 8" "(8::nat) < 2 ^ 32"
    "ring_ok 8 connected_world"
    by (simp_all add: ring_ok_def ring_inv_def eval_defs)
  have "\<exists>w'. run_reads receiving (Suc (Suc 0)) connected_world
               [BufferedRead 1 0, StreamRead 1 3] = Inr w'
          \<and> socket_map w' 1 = Some (connected_socket\<lparr>offset_read_in := 3,
                                       offset_write_in := 5, bytes_read := 3\<rparr>)"
    by (simp add: i_socket_read_def buffer_read_step_def buffer_read_result_def
          buffer_max_read_def buffer_try_read_def i_socket_available_fd_def read_copy_def
          read_advance_def socket_read_drain.simps usub_def u32_def eval_defs)
  then obtain w' where r: "run_reads receiving (Suc (Suc 0)) connected_world
               [BufferedRead 1 0, StreamRead 1 3] = Inr w'"
    and m: "socket_map w' 1 = Some (connected_socket\<lparr>offset_read_in := 3,
                                       offset_write_in := 5, bytes_read := 3\<rparr>)"
    by blast
  let ?s = "connected_socket\<lparr>offset_read_in := 3, offset_write_in := 5, bytes_read := 3\<rparr>"
  from ring_cursors_in_range [OF h r m]
  obtain n where "i_socket_buffered_in receiving (Some ?s) = Inr n"
    and "int n = (int (offset_write_in ?s) - int (offset_read_in ?s)) mod int 8"
    by blast
  then have "i_socket_buffered_in receiving (Some ?s) = Inr 2"
    by simp
  then show ?thesis
    using h r m by auto
qed

end
